theory Spec2Isabelle
  imports Complex_Main "HOL-Library.Sublist"
begin

section \<open>JavaScript values\<close>

text \<open>
  A JavaScript number is a real value or one of the three special values. \<open>Num q\<close>
  stands for the binary64 value nearest to \<open>q\<close>; the rounding of the significand is
  not represented, overflow to infinity and underflow to zero are (see \<open>toDouble\<close>).
\<close>

datatype jsnum = Num real | PosInf | NegInf | NaN

datatype jsval =
    JUndefined
  | JNull
  | JBool bool
  | JNumber jsnum
  | JString string
  | JArray "jsval list"
  | JObject "(string \<times> jsval) list"

text \<open>\<open>!v\<close> is \<open>\<not> truthy v\<close>.\<close>

fun truthy :: "jsval \<Rightarrow> bool" where
  "truthy JUndefined = False"
| "truthy JNull = False"
| "truthy (JBool b) = b"
| "truthy (JNumber n) = (n \<noteq> NaN \<and> n \<noteq> Num 0)"
| "truthy (JString s) = (s \<noteq> [])"
| "truthy (JArray xs) = True"
| "truthy (JObject kvs) = True"

text \<open>Property read \<open>v.k\<close> on a value that is neither null nor undefined, for a key
  that no prototype defines (\<open>speaker\<close>, \<open>line\<close>).\<close>

fun getProp :: "jsval \<Rightarrow> string \<Rightarrow> jsval" where
  "getProp (JObject kvs) k = (case map_of kvs k of None \<Rightarrow> JUndefined | Some v \<Rightarrow> v)"
| "getProp v k = JUndefined"

text \<open>A text field of the multipart body is a string, or undefined (\<open>None\<close>).\<close>

definition truthyS :: "string option \<Rightarrow> bool" where
  "truthyS x = (case x of None \<Rightarrow> False | Some s \<Rightarrow> s \<noteq> [])"

definition toLowerChar :: "char \<Rightarrow> char" where
  "toLowerChar c =
     (case map_of (zip ''ABCDEFGHIJKLMNOPQRSTUVWXYZ'' ''abcdefghijklmnopqrstuvwxyz'') c of
        None \<Rightarrow> c
      | Some l \<Rightarrow> l)"

definition toLowerCase :: "string \<Rightarrow> string" where
  "toLowerCase s = map toLowerChar s"

text \<open>\<open>s.includes(t)\<close>.\<close>

fun includes_str :: "string \<Rightarrow> string \<Rightarrow> bool" where
  "includes_str [] t = (t = [])"
| "includes_str (c # s) t = (prefix t (c # s) \<or> includes_str s t)"

subsection \<open>Number.parseFloat\<close>

text \<open>
  The string that is parsed is a sequence of UTF-16 code units, each a number below
  65536; \<open>codeUnits\<close> gives the code units of a string of Latin-1 characters.
  \<open>isWhiteSpace\<close> is \<open>StrWhiteSpaceChar\<close>: the white space (tab, vertical tab, form
  feed, the byte order mark and the space separators of Unicode) and the line
  terminators (line feed, carriage return, line and paragraph separator).
\<close>

type_synonym codeunit = nat

definition codeUnits :: "string \<Rightarrow> codeunit list" where
  "codeUnits s = map of_char s"

definition isWhiteSpace :: "codeunit \<Rightarrow> bool" where
  "isWhiteSpace c =
     (c \<in> {0x9, 0xB, 0xC, 0xFEFF, 0x20, 0xA0, 0x1680, 0x202F, 0x205F, 0x3000,
            0xA, 0xD, 0x2028, 0x2029}
      \<or> (0x2000 \<le> c \<and> c \<le> 0x200A))"

definition isDigit :: "codeunit \<Rightarrow> bool" where
  "isDigit c = (48 \<le> c \<and> c \<le> 57)"

definition digitsValue :: "codeunit list \<Rightarrow> nat" where
  "digitsValue ds = foldl (\<lambda>acc c. 10 * acc + (c - 48)) 0 ds"

definition toDouble :: "real \<Rightarrow> jsnum" where
  "toDouble q =
     (if 2 ^ 1024 - 2 ^ 970 \<le> q then PosInf
      else if q \<le> - (2 ^ 1024 - 2 ^ 970) then NegInf
      else if \<bar>q\<bar> \<le> 1 / 2 ^ 1075 then Num 0
      else Num q)"

definition scale10 :: "real \<Rightarrow> int \<Rightarrow> real" where
  "scale10 m e = (if 0 \<le> e then m * 10 ^ nat e else m / 10 ^ nat (- e))"

text \<open>The exponent part \<open>e[+-]digits\<close> of a decimal literal, 0 when there is none.\<close>

definition exponentPart :: "codeunit list \<Rightarrow> int" where
  "exponentPart s =
     (case s of
        [] \<Rightarrow> 0
      | c # r \<Rightarrow>
          if c = of_char CHR ''e'' \<or> c = of_char CHR ''E'' then
            (case r of
               [] \<Rightarrow> 0
             | d # r' \<Rightarrow>
                 if d = of_char CHR ''+'' then int (digitsValue (takeWhile isDigit r'))
                 else if d = of_char CHR ''-'' then - int (digitsValue (takeWhile isDigit r'))
                 else int (digitsValue (takeWhile isDigit r)))
          else 0)"

text \<open>The unsigned part: \<open>Infinity\<close>, or the longest prefix that is a decimal literal.\<close>

definition unsignedLiteral :: "codeunit list \<Rightarrow> jsnum" where
  "unsignedLiteral s =
     (if prefix (codeUnits ''Infinity'') s then PosInf
      else
        let ip = takeWhile isDigit s;
            s3 = dropWhile isDigit s;
            hasDot = (s3 \<noteq> [] \<and> hd s3 = of_char CHR ''.'');
            fp = (if hasDot then takeWhile isDigit (tl s3) else []);
            s4 = (if hasDot then dropWhile isDigit (tl s3) else s3)
        in if ip = [] \<and> fp = [] then NaN
           else toDouble (scale10 (real (digitsValue (ip @ fp)))
                            (exponentPart s4 - int (length fp))))"

definition negate :: "jsnum \<Rightarrow> jsnum" where
  "negate n = (case n of Num q \<Rightarrow> Num (- q) | PosInf \<Rightarrow> NegInf | NegInf \<Rightarrow> PosInf | NaN \<Rightarrow> NaN)"

definition parseFloat :: "codeunit list \<Rightarrow> jsnum" where
  "parseFloat s =
     (case dropWhile isWhiteSpace s of
        [] \<Rightarrow> NaN
      | c # r \<Rightarrow>
          if c = of_char CHR ''-'' then negate (unsignedLiteral r)
          else if c = of_char CHR ''+'' then unsignedLiteral r
          else unsignedLiteral (c # r))"

definition isFinite :: "jsnum \<Rightarrow> bool" where
  "isFinite n = (case n of Num q \<Rightarrow> True | _ \<Rightarrow> False)"

text \<open>\<open>n > 0\<close>.\<close>

definition gtZero :: "jsnum \<Rightarrow> bool" where
  "gtZero n = (case n of Num q \<Rightarrow> 0 < q | PosInf \<Rightarrow> True | _ \<Rightarrow> False)"

section \<open>Files, paths and names\<close>

datatype dir = UPLOAD_DIR | WORK_DIR | OUTPUT_DIR

text \<open>\<open>path.join(DIR, name)\<close> is the pair \<open>(DIR, name)\<close>.\<close>

type_synonym path = "dir \<times> string"

definition digitChar :: "nat \<Rightarrow> char" where
  "digitChar d = ''0123456789'' ! d"

text \<open>The decimal digits of \<open>index + 1\<close> in a template literal.\<close>

fun decimal :: "nat \<Rightarrow> string" where
  "decimal n = (if n < 10 then [digitChar n] else decimal (n div 10) @ [digitChar (n mod 10)])"

declare decimal.simps [simp del]

definition sanitizeFileName :: "string \<Rightarrow> string" where
  "sanitizeFileName name =
     map (\<lambda>c. if c \<in> set ''abcdefghijklmnopqrstuvwxyzABCDEFGHIJKLMNOPQRSTUVWXYZ0123456789-_.''
              then c else CHR ''_'') name"

definition VIDEO_LIBRARY :: "string \<Rightarrow> string \<Rightarrow> string option" where
  "VIDEO_LIBRARY speaker key =
     (if speaker = ''man'' then
        map_of [(''studio'', ''https://YOUR_DEFAULT_MAN_VIDEO_URL/library/man-studio.mp4''),
                (''office'', ''https://YOUR_DEFAULT_MAN_VIDEO_URL/library/man-office.mp4'')] key
      else if speaker = ''woman'' then
        map_of [(''studio'', ''https://YOUR_DEFAULT_MAN_VIDEO_URL/library/woman-studio.mp4''),
                (''office'', ''https://YOUR_DEFAULT_MAN_VIDEO_URL/library/woman-office.mp4'')] key
      else None)"

section \<open>Requests, responses, events and the state of a run\<close>

record request =
  apiKey :: "string option"
  topicText :: "string option"
  youtubeUrl :: "string option"
  podcastLength :: "codeunit list option"
  languageCode :: "string option"
  manVoice :: "string option"
  womanVoice :: "string option"
  manVideoOption :: "string option"
  womanVideoOption :: "string option"
  manLibraryVideo :: "string option"
  womanLibraryVideo :: "string option"
  topicFile :: "string option"
  manVideoFile :: "string option"
  womanVideoFile :: "string option"

text \<open>
  The three file fields hold the name multer gave the upload under \<open>UPLOAD_DIR\<close>.
  \<open>podcastLength\<close>, the one field whose characters the program parses, is kept as its
  UTF-16 code units.
\<close>

definition uploadPath :: "string option \<Rightarrow> path option" where
  "uploadPath f = map_option (\<lambda>name. (UPLOAD_DIR, name)) f"

datatype response = Ok200 string | Err400 string | Err500 string

datatype part =
    Intro jsnum
  | PlainTopic string
  | TranscriptPart string string
  | NoTranscriptPart string
  | InlineData string string
  | NoContext

datatype event =
    EvRegister path
  | EvTranscript string
  | EvReadFile path
  | EvGemini string "part list"
  | EvDownload string path
  | EvSynthesize jsval string string path
  | EvWriteAudio path
  | EvWriteManifest path
  | EvProbe path
  | EvLoop path path jsval path
  | EvConcat path "path list" path
  | EvUnlink path
  | EvUnlinkRequested path
  | EvRespond response
  | EvSetTimeout nat "path list"

text \<open>
  \<open>trace\<close> holds the events of the run, the newest first. \<open>pendingUnlinks\<close> are the
  \<open>fsp.unlink\<close> calls whose promise nobody awaited, each with the time of the call:
  the promises settle after the handler's synchronous code has finished. \<open>files\<close> is
  the disk. \<open>timers\<close> are the callbacks given to \<open>setTimeout\<close>.
\<close>

record state =
  files :: "path set"
  cleanupPaths :: "path list"
  trace :: "event list"
  uuids :: nat
  pendingUnlinks :: "(nat \<times> path) list"
  timers :: "(nat \<times> path list) list"
  response :: "response option"

datatype gemini_reply =
    GeminiFailed string
  | GeminiNoCandidates
  | GeminiNoText
  | GeminiText string

datatype tts_reply = TtsFailed string | TtsNoAudio | TtsAudio string

text \<open>
  Everything outside the program: the identifiers \<open>uuidv4\<close> returns, the configured
  URLs, and the outcome of each call to a backend, to the media engine or to the file
  system. Calls made more than once in a run take the time of the call (the number of
  events logged so far). An error is the message of the exception.

  \<open>fs_unlink\<close> is the outcome of an \<open>fsp.unlink\<close>: \<open>None\<close> when the file is removed
  (or was not there), the error otherwise, and then the file stays. An unlink that
  nobody awaits is carried out by the file system at a moment the program does not
  control: \<open>unlinkedAtOnce\<close> tells whether that was before the handler's next statement.
  \<open>destructureMessage\<close> is the message of the \<open>TypeError\<close> that destructuring
  \<open>undefined\<close> throws.
\<close>

record env =
  uuid :: "nat \<Rightarrow> string"
  DEFAULT_MAN_VIDEO_URL :: string
  DEFAULT_WOMAN_VIDEO_URL :: string
  fetchTranscript :: "string \<Rightarrow> string list option"
  mime_lookup :: "path \<Rightarrow> string option"
  readFile :: "path \<Rightarrow> string + string"
  gemini_post :: "string \<Rightarrow> part list \<Rightarrow> gemini_reply"
  JSON_parse :: "string \<Rightarrow> jsval option"
  axios_get :: "nat \<Rightarrow> string \<Rightarrow> string option"
  tts_post :: "nat \<Rightarrow> jsval \<Rightarrow> string \<Rightarrow> string \<Rightarrow> tts_reply"
  writeFile :: "nat \<Rightarrow> path \<Rightarrow> string option"
  ffprobe :: "nat \<Rightarrow> path \<Rightarrow> string + jsval"
  ffmpeg_loop :: "nat \<Rightarrow> path \<Rightarrow> path \<Rightarrow> jsnum \<Rightarrow> path \<Rightarrow> string option"
  ffmpeg_concat :: "nat \<Rightarrow> path \<Rightarrow> path \<Rightarrow> string option"
  fs_unlink :: "nat \<Rightarrow> path \<Rightarrow> string option"
  unlinkedAtOnce :: "nat \<Rightarrow> path \<Rightarrow> bool"
  destructureMessage :: string

type_synonym 'a res = "(string + 'a) \<times> state"

definition ret :: "'a \<Rightarrow> state \<Rightarrow> 'a res" where
  "ret x s = (Inr x, s)"

definition throw :: "string \<Rightarrow> state \<Rightarrow> 'a res" where
  "throw msg s = (Inl msg, s)"

text \<open>\<open>const x = await m; f x\<close>: an exception of \<open>m\<close> skips \<open>f\<close>.\<close>

definition andThen :: "(state \<Rightarrow> 'a res) \<Rightarrow> ('a \<Rightarrow> state \<Rightarrow> 'b res) \<Rightarrow> state \<Rightarrow> 'b res" where
  "andThen m f s = (case m s of (Inl e, s') \<Rightarrow> (Inl e, s') | (Inr x, s') \<Rightarrow> f x s')"

definition emit :: "event \<Rightarrow> state \<Rightarrow> state" where
  "emit e s = s\<lparr>trace := e # trace s\<rparr>"

definition now :: "state \<Rightarrow> nat" where
  "now s = length (trace s)"

definition uuidv4 :: "env \<Rightarrow> state \<Rightarrow> string res" where
  "uuidv4 E s = (Inr (uuid E (uuids s)), s\<lparr>uuids := Suc (uuids s)\<rparr>)"

text \<open>\<open>cleanupPaths.push(p)\<close>.\<close>

definition register :: "path \<Rightarrow> state \<Rightarrow> state" where
  "register p s = emit (EvRegister p) (s\<lparr>cleanupPaths := cleanupPaths s @ [p]\<rparr>)"

definition respond :: "response \<Rightarrow> state \<Rightarrow> state" where
  "respond r s = emit (EvRespond r) (s\<lparr>response := Some r\<rparr>)"


definition orDefault :: "'a \<Rightarrow> 'a option \<Rightarrow> 'a" where
  "orDefault d x = (case x of None \<Rightarrow> d | Some v \<Rightarrow> v)"

section \<open>The program\<close>

text \<open>
  The contents of the files written (audio bytes, the concat manifest) are not
  represented; the event of a concatenation carries the clip paths its manifest lists.
  A call that fails leaves no file behind, except \<open>downloadFile\<close>, whose write stream
  is opened before the request is made.
\<close>

fun joinWith :: "string \<Rightarrow> string list \<Rightarrow> string" where
  "joinWith sep [] = []"
| "joinWith sep [x] = x"
| "joinWith sep (x # y # ys) = x @ sep @ joinWith sep (y # ys)"

definition extractYouTubeTranscript :: "env \<Rightarrow> string \<Rightarrow> state \<Rightarrow> string option \<times> state" where
  "extractYouTubeTranscript E url s =
     (case fetchTranscript E url of
        None \<Rightarrow> (None, emit (EvTranscript url) s)
      | Some items \<Rightarrow>
          if items = [] then (None, emit (EvTranscript url) s)
          else (Some (joinWith '' '' items), emit (EvTranscript url) s))"

definition topicTextPart :: "string option \<Rightarrow> part list" where
  "topicTextPart t = (if truthyS t then [PlainTopic (orDefault [] t)] else [])"

definition youtubePart :: "env \<Rightarrow> string option \<Rightarrow> state \<Rightarrow> part list res" where
  "youtubePart E y s =
     (if truthyS y then
        (let url = orDefault [] y in
         case extractYouTubeTranscript E url s of
           (transcriptText, s') \<Rightarrow>
             if truthyS transcriptText
             then ret [TranscriptPart url (orDefault [] transcriptText)] s'
             else ret [NoTranscriptPart url] s')
      else ret [] s)"

definition filePart :: "env \<Rightarrow> path option \<Rightarrow> state \<Rightarrow> part list res" where
  "filePart E f s =
     (case f of
        None \<Rightarrow> ret [] s
      | Some p \<Rightarrow>
          (let looked = mime_lookup E p;
               mimeType = (if truthyS looked then orDefault [] looked
                           else ''application/octet-stream'')
           in case readFile E p of
                Inl err \<Rightarrow> throw err (emit (EvReadFile p) s)
              | Inr base64Data \<Rightarrow> ret [InlineData mimeType base64Data] (emit (EvReadFile p) s)))"

definition prepareTopicParts ::
  "env \<Rightarrow> string option \<Rightarrow> string option \<Rightarrow> path option \<Rightarrow> jsnum \<Rightarrow> state \<Rightarrow> part list res" where
  "prepareTopicParts E topicText' youtubeUrl' topicFilePath podcastLength' =
     andThen (youtubePart E youtubeUrl') (\<lambda>yt.
     andThen (filePart E topicFilePath) (\<lambda>fp.
       let parts = [Intro podcastLength'] @ topicTextPart topicText' @ yt @ fp
       in ret (if length parts = 1 then parts @ [NoContext] else parts)))"

definition callGemini :: "env \<Rightarrow> string \<Rightarrow> part list \<Rightarrow> state \<Rightarrow> jsval list res" where
  "callGemini E key parts s =
     (let s' = emit (EvGemini key parts) s in
      case gemini_post E key parts of
        GeminiFailed err \<Rightarrow> throw err s'
      | GeminiNoCandidates \<Rightarrow> throw ''Gemini returned no candidates.'' s'
      | GeminiNoText \<Rightarrow> throw ''Gemini response did not include text content.'' s'
      | GeminiText t \<Rightarrow>
          if t = [] then throw ''Gemini response did not include text content.'' s'
          else
            (case JSON_parse E t of
               None \<Rightarrow> throw ''Failed to parse Gemini response as JSON. Ensure the model is instructed to output valid JSON.'' s'
             | Some (JArray script) \<Rightarrow> ret script s'
             | Some v \<Rightarrow> throw ''Gemini response JSON is not an array.'' s'))"

definition synthesizeSpeech ::
  "env \<Rightarrow> string \<Rightarrow> jsval \<Rightarrow> string \<Rightarrow> string \<Rightarrow> path \<Rightarrow> state \<Rightarrow> path res" where
  "synthesizeSpeech E key text' languageCode' voiceName outputPath s =
     (let s1 = emit (EvSynthesize text' languageCode' voiceName outputPath) s in
      case tts_post E (now s) text' languageCode' voiceName of
        TtsFailed err \<Rightarrow> throw err s1
      | TtsNoAudio \<Rightarrow> throw ''Text-to-Speech response missing audioContent.'' s1
      | TtsAudio audioContent \<Rightarrow>
          if audioContent = [] then throw ''Text-to-Speech response missing audioContent.'' s1
          else
            (let s2 = emit (EvWriteAudio outputPath) s1 in
             case writeFile E (now s1) outputPath of
               Some err \<Rightarrow> throw err s2
             | None \<Rightarrow> ret outputPath (s2\<lparr>files := insert outputPath (files s2)\<rparr>)))"

definition getMediaDuration :: "env \<Rightarrow> path \<Rightarrow> state \<Rightarrow> jsval res" where
  "getMediaDuration E filePath s =
     (case ffprobe E (now s) filePath of
        Inl err \<Rightarrow> throw err (emit (EvProbe filePath) s)
      | Inr duration \<Rightarrow> ret duration (emit (EvProbe filePath) s))"

text \<open>\<open>durationSeconds.toFixed(3)\<close> raises a TypeError unless the duration is a number.\<close>

definition loopVideoWithAudio :: "env \<Rightarrow> path \<Rightarrow> path \<Rightarrow> jsval \<Rightarrow> path \<Rightarrow> state \<Rightarrow> path res" where
  "loopVideoWithAudio E videoPath audioPath durationSeconds outputPath s =
     (let s' = emit (EvLoop videoPath audioPath durationSeconds outputPath) s in
      case durationSeconds of
        JNumber d \<Rightarrow>
          (case ffmpeg_loop E (now s) videoPath audioPath d outputPath of
             Some err \<Rightarrow> throw err s'
           | None \<Rightarrow> ret outputPath (s'\<lparr>files := insert outputPath (files s')\<rparr>))
      | _ \<Rightarrow> throw ''durationSeconds.toFixed is not a function'' s')"

definition concatenateClips :: "env \<Rightarrow> path list \<Rightarrow> path \<Rightarrow> state \<Rightarrow> path res" where
  "concatenateClips E clipPaths outputPath =
     andThen (uuidv4 E) (\<lambda>u s.
       let listFilePath = (WORK_DIR, ''concat_'' @ u @ ''.txt'');
           s1 = emit (EvWriteManifest listFilePath) s
       in case writeFile E (now s) listFilePath of
            Some err \<Rightarrow> throw err s1
          | None \<Rightarrow>
              (let s2 = s1\<lparr>files := insert listFilePath (files s1)\<rparr>;
                   s3 = emit (EvConcat listFilePath clipPaths outputPath) s2
               in case ffmpeg_concat E (now s2) listFilePath outputPath of
                    Some err \<Rightarrow> throw err s3
                  | None \<Rightarrow>
                      (let s4 = s3\<lparr>files := insert outputPath (files s3)\<rparr>;
                           s5 = emit (EvUnlink listFilePath) s4
                       in case fs_unlink E (now s4) listFilePath of
                            Some err \<Rightarrow> ret outputPath s5
                          | None \<Rightarrow> ret outputPath (s5\<lparr>files := files s5 - {listFilePath}\<rparr>))))"

definition downloadFile :: "env \<Rightarrow> string \<Rightarrow> path \<Rightarrow> state \<Rightarrow> path res" where
  "downloadFile E url targetPath s =
     (let s' = emit (EvDownload url targetPath) (s\<lparr>files := insert targetPath (files s)\<rparr>) in
      case axios_get E (now s) url of
        Some err \<Rightarrow> throw err s'
      | None \<Rightarrow> ret targetPath s')"

definition resolveVideoSource ::
  "env \<Rightarrow> string \<Rightarrow> path option \<Rightarrow> string option \<Rightarrow> string \<Rightarrow> state \<Rightarrow> path res" where
  "resolveVideoSource E option uploadPath' libraryKey speaker =
     (if option = ''custom'' then
        (case uploadPath' of
           None \<Rightarrow> throw (''A custom video was selected for the '' @ speaker @ '' but no file was uploaded.'')
         | Some p \<Rightarrow> ret p)
      else
        andThen (uuidv4 E) (\<lambda>u.
          let targetPath = (WORK_DIR, speaker @ ''_'' @ u @ ''.mp4'');
              fromLibrary = (if option = ''library'' \<and> truthyS libraryKey
                             then VIDEO_LIBRARY speaker (orDefault [] libraryKey) else None);
              sourceUrl = (if truthyS fromLibrary then orDefault [] fromLibrary
                           else if speaker = ''man'' then DEFAULT_MAN_VIDEO_URL E
                           else DEFAULT_WOMAN_VIDEO_URL E)
          in downloadFile E sourceUrl targetPath))"

definition validateChirpVoice :: "string option \<Rightarrow> bool" where
  "validateChirpVoice voiceName =
     (case voiceName of None \<Rightarrow> False | Some v \<Rightarrow> includes_str v ''chirp'')"

definition normalizeLength :: "codeunit list option \<Rightarrow> jsnum" where
  "normalizeLength podcastLength' =
     (let parsedLength = parseFloat (orDefault (codeUnits ''5'') podcastLength')
      in if isFinite parsedLength \<and> gtZero parsedLength then parsedLength else Num 5)"

text \<open>What the rendering loop reads from the enclosing scope.\<close>

record ctx =
  ctxApiKey :: string
  ctxLanguageCode :: string
  ctxManVoice :: string
  ctxWomanVoice :: string
  ctxManVideoPath :: path
  ctxWomanVideoPath :: path

text \<open>The loop's guard \<open>!line || !line.speaker || !line.line\<close> is \<open>\<not> wellFormed line\<close>.\<close>

definition wellFormed :: "jsval \<Rightarrow> bool" where
  "wellFormed line = (truthy line \<and> truthy (getProp line ''speaker'') \<and> truthy (getProp line ''line''))"

definition audioPathOf :: "string \<Rightarrow> nat \<Rightarrow> path" where
  "audioPathOf u index = (WORK_DIR, u @ ''_'' @ sanitizeFileName (''line_'' @ decimal (index + 1) @ ''.mp3''))"

definition clipPathOf :: "string \<Rightarrow> nat \<Rightarrow> path" where
  "clipPathOf u index = (WORK_DIR, u @ ''_clip_'' @ decimal (index + 1) @ ''.mp4'')"

text \<open>Lines 359 to 372: the voice and the video of the speaker, the audio, the clip.\<close>

definition renderBody :: "env \<Rightarrow> ctx \<Rightarrow> jsval \<Rightarrow> path \<Rightarrow> path \<Rightarrow> state \<Rightarrow> path res" where
  "renderBody E C line audioPath clipPath =
     (case getProp line ''speaker'' of
        JString speaker \<Rightarrow>
          (let voice = (if includes_str (toLowerCase speaker) ''woman''
                        then ctxWomanVoice C else ctxManVoice C);
               baseVideoPath = (if includes_str (toLowerCase speaker) ''woman''
                                then ctxWomanVideoPath C else ctxManVideoPath C)
           in andThen (synthesizeSpeech E (ctxApiKey C) (getProp line ''line'')
                         (ctxLanguageCode C) voice audioPath) (\<lambda>_.
              andThen (getMediaDuration E audioPath) (\<lambda>duration.
                if \<not> truthy duration \<or> duration = JNumber NaN
                then throw ''Unable to determine audio duration.''
                else andThen (loopVideoWithAudio E baseVideoPath audioPath duration clipPath)
                       (\<lambda>_. ret clipPath))))
      | _ \<Rightarrow> throw ''line.speaker.toLowerCase is not a function'')"

text \<open>One iteration of the loop for an entry that passed the guard: lines 354 to 357
  name the two files and register them, then the body runs.\<close>

definition renderLine :: "env \<Rightarrow> ctx \<Rightarrow> nat \<Rightarrow> jsval \<Rightarrow> state \<Rightarrow> path res" where
  "renderLine E C index line =
     andThen (uuidv4 E) (\<lambda>u1.
     andThen (uuidv4 E) (\<lambda>u2 s.
       let audioPath = audioPathOf u1 index;
           clipPath = clipPathOf u2 index
       in renderBody E C line audioPath clipPath (register clipPath (register audioPath s))))"

fun renderLines :: "env \<Rightarrow> ctx \<Rightarrow> nat \<Rightarrow> jsval list \<Rightarrow> path list \<Rightarrow> state \<Rightarrow> path list res" where
  "renderLines E C index [] clipPaths s = (Inr clipPaths, s)"
| "renderLines E C index (line # rest) clipPaths s =
     (if \<not> wellFormed line then renderLines E C (index + 1) rest clipPaths s
      else
        (case renderLine E C index line s of
           (Inl err, s') \<Rightarrow> (Inl err, s')
         | (Inr clipPath, s') \<Rightarrow> renderLines E C (index + 1) rest (clipPaths @ [clipPath]) s'))"

text \<open>Lines 341 to 346: a resolved path that is not the upload is registered.\<close>

definition registerDownloads :: "path \<Rightarrow> path option \<Rightarrow> path \<Rightarrow> path option \<Rightarrow> state \<Rightarrow> state" where
  "registerDownloads manVideoPath manUpload womanVideoPath womanUpload s =
     (let s1 = (if Some manVideoPath \<noteq> manUpload then register manVideoPath s else s)
      in if Some womanVideoPath \<noteq> womanUpload then register womanVideoPath s1 else s1)"

definition tempUploads :: "request \<Rightarrow> path list" where
  "tempUploads req =
     List.map_filter (\<lambda>x. x)
       [uploadPath (topicFile req), uploadPath (manVideoFile req), uploadPath (womanVideoFile req)]"

definition setTimeout :: "nat \<Rightarrow> state \<Rightarrow> state" where
  "setTimeout delay s =
     emit (EvSetTimeout delay (cleanupPaths s)) (s\<lparr>timers := timers s @ [(delay, cleanupPaths s)]\<rparr>)"

text \<open>The blocks of the handler's \<open>try\<close>, in the order of the source.\<close>

text \<open>Lines 316 to 326: the topic parts and the script.\<close>

definition getScript :: "env \<Rightarrow> request \<Rightarrow> state \<Rightarrow> jsval list res" where
  "getScript E req =
     (let normalizedLength = normalizeLength (podcastLength req)
      in andThen (prepareTopicParts E (topicText req) (youtubeUrl req)
                    (uploadPath (topicFile req)) normalizedLength)
           (\<lambda>topicParts. callGemini E (orDefault [] (apiKey req)) topicParts))"

text \<open>Lines 330 to 346: the two background videos.\<close>

definition resolveSources :: "env \<Rightarrow> request \<Rightarrow> state \<Rightarrow> (path \<times> path) res" where
  "resolveSources E req =
     andThen (resolveVideoSource E (orDefault ''default'' (manVideoOption req))
                (uploadPath (manVideoFile req)) (manLibraryVideo req) ''man'')
       (\<lambda>manVideoPath.
     andThen (resolveVideoSource E (orDefault ''default'' (womanVideoOption req))
                (uploadPath (womanVideoFile req)) (womanLibraryVideo req) ''woman'')
       (\<lambda>womanVideoPath s.
          ret (manVideoPath, womanVideoPath)
            (registerDownloads manVideoPath (uploadPath (manVideoFile req))
               womanVideoPath (uploadPath (womanVideoFile req)) s)))"

definition loopCtx :: "request \<Rightarrow> path \<Rightarrow> path \<Rightarrow> ctx" where
  "loopCtx req manVideoPath womanVideoPath =
     \<lparr>ctxApiKey = orDefault [] (apiKey req),
      ctxLanguageCode = orDefault ''en-US'' (languageCode req),
      ctxManVoice = orDefault [] (manVoice req),
      ctxWomanVoice = orDefault [] (womanVoice req),
      ctxManVideoPath = manVideoPath,
      ctxWomanVideoPath = womanVideoPath\<rparr>"

text \<open>Lines 375 to 391: the concatenation, the response and the deferred cleanup.\<close>

definition finishRun :: "env \<Rightarrow> request \<Rightarrow> path list \<Rightarrow> state \<Rightarrow> unit res" where
  "finishRun E req clipPaths =
     (if clipPaths = []
      then throw ''No clips were generated. Check the script returned by Gemini.''
      else
        andThen (uuidv4 E) (\<lambda>podcastId.
          let finalFileName = ''podcast_'' @ podcastId @ ''.mp4'';
              finalOutputPath = (OUTPUT_DIR, finalFileName)
          in andThen (concatenateClips E clipPaths finalOutputPath) (\<lambda>out s.
               ret () (setTimeout 30000
                 (fold register (tempUploads req)
                   (respond (Ok200 (''/downloads/'' @ finalFileName)) s))))))"

definition tryBlock :: "env \<Rightarrow> request \<Rightarrow> state \<Rightarrow> unit res" where
  "tryBlock E req =
     andThen (getScript E req) (\<lambda>script.
     andThen (resolveSources E req) (\<lambda>(manVideoPath, womanVideoPath).
     andThen (renderLines E (loopCtx req manVideoPath womanVideoPath) 0 script [])
       (finishRun E req)))"

text \<open>
  \<open>cleanupFiles\<close> as the handler calls it, without \<open>await\<close>: every \<open>fsp.unlink\<close>
  is requested at once and its promise settles later. The file system may have removed
  the file before the handler's next statement, or may remove it afterwards.
\<close>

definition cleanupFiles :: "env \<Rightarrow> path list \<Rightarrow> state \<Rightarrow> state" where
  "cleanupFiles E filePaths s =
     fold (\<lambda>p s'.
             let t = now s';
                 disk = (if fs_unlink E t p = None \<and> unlinkedAtOnce E t p
                         then files s' - {p} else files s')
             in emit (EvUnlinkRequested p)
                  (s'\<lparr>files := disk, pendingUnlinks := pendingUnlinks s' @ [(t, p)]\<rparr>))
       filePaths s"

definition catchBlock :: "env \<Rightarrow> string \<Rightarrow> state \<Rightarrow> state" where
  "catchBlock E message s =
     respond (Err500 (if message = [] then ''Failed to generate podcast.'' else message))
       (cleanupFiles E (cleanupPaths s) s)"

text \<open>
  The handler of \<open>POST /generate-podcast\<close>, up to the end of its synchronous code, on a
  request whose multipart body multer has parsed into \<open>req.body\<close> and \<open>req.files\<close>.
\<close>

definition generatePodcast :: "env \<Rightarrow> request \<Rightarrow> state \<Rightarrow> state" where
  "generatePodcast E req s =
     (if \<not> truthyS (apiKey req)
      then respond (Err400 ''Google Cloud API key is required.'') s
      else if \<not> validateChirpVoice (manVoice req) \<or> \<not> validateChirpVoice (womanVoice req)
      then respond (Err400 ''Both voices must be selected from the Chirp family.'') s
      else
        (case tryBlock E req s of
           (Inr u, s') \<Rightarrow> s'
         | (Inl message, s') \<Rightarrow> catchBlock E message s'))"

text \<open>
  The handler on any request. For a request that is not multipart multer leaves
  \<open>req.body\<close> undefined (\<open>None\<close>): the destructuring at the head of the \<open>try\<close> block
  throws, and the \<open>catch\<close> block answers.
\<close>

definition handler :: "env \<Rightarrow> request option \<Rightarrow> state \<Rightarrow> state" where
  "handler E body s =
     (case body of
        None \<Rightarrow> catchBlock E (destructureMessage E) s
      | Some req \<Rightarrow> generatePodcast E req s)"

text \<open>
  The event loop after the handler: the pending unlinks settle, those that did not fail
  having removed their file, and the timers fire, each requesting its unlinks, which
  then settle too.
\<close>

definition settle :: "env \<Rightarrow> state \<Rightarrow> state" where
  "settle E s =
     s\<lparr>files := files s - set (map snd (filter (\<lambda>(t, p). fs_unlink E t p = None) (pendingUnlinks s))),
       pendingUnlinks := []\<rparr>"

definition fireTimers :: "env \<Rightarrow> state \<Rightarrow> state" where
  "fireTimers E s = fold (\<lambda>(delay, paths) s'. cleanupFiles E paths s') (timers s) (s\<lparr>timers := []\<rparr>)"

definition afterRetention :: "env \<Rightarrow> state \<Rightarrow> state" where
  "afterRetention E s = settle E (fireTimers E (settle E s))"

text \<open>The state when a request arrives: the uploads are on disk, nothing else.\<close>

definition initState :: "request \<Rightarrow> state" where
  "initState req =
     \<lparr>files = set (tempUploads req), cleanupPaths = [], trace = [], uuids = 0,
      pendingUnlinks = [], timers = [], response = None\<rparr>"


text \<open>A run: the handler on a request with a multipart body that has just arrived.\<close>

definition run :: "env \<Rightarrow> request \<Rightarrow> state" where
  "run E req = generatePodcast E req (initState req)"

text \<open>The state when a request without a multipart body arrives: no upload was saved.\<close>

definition idle :: state where
  "idle = \<lparr>files = {}, cleanupPaths = [], trace = [], uuids = 0,
           pendingUnlinks = [], timers = [], response = None\<rparr>"

text \<open>The handler on a request that has just arrived, with a multipart body or without.\<close>

definition serve :: "env \<Rightarrow> request option \<Rightarrow> state" where
  "serve E body =
     (case body of
        None \<Rightarrow> handler E None idle
      | Some req \<Rightarrow> handler E (Some req) (initState req))"

section \<open>The readings of the specification\<close>


text \<open>The effective length: the parsed value when finite and positive, 5 otherwise.\<close>

definition effectiveLength :: "codeunit list option \<Rightarrow> jsnum" where
  "effectiveLength field =
     (case field of
        None \<Rightarrow> Num 5
      | Some s \<Rightarrow> (case parseFloat s of Num q \<Rightarrow> if 0 < q then Num q else Num 5 | _ \<Rightarrow> Num 5))"


text \<open>The number of background videos a request has downloaded.\<close>

definition downloads :: "request \<Rightarrow> nat" where
  "downloads req =
     (if orDefault ''default'' (manVideoOption req) = ''custom'' then 0 else 1)
     + (if orDefault ''default'' (womanVideoOption req) = ''custom'' then 0 else 1)"


section \<open>Example runs\<close>

definition exampleScript :: "jsval list" where
  "exampleScript =
     [JObject [(''speaker'', JString ''Man''), (''line'', JString ''Hi'')],
      JObject [(''speaker'', JString ''Woman''), (''line'', JString ''Hello'')],
      JObject [],
      JObject [(''speaker'', JString []), (''line'', JString [])]]"

text \<open>A world in which every call succeeds and every audio file lasts two seconds.\<close>

definition env0 :: env where
  "env0 =
     \<lparr>uuid = (\<lambda>n. ''u'' @ decimal n),
      DEFAULT_MAN_VIDEO_URL = ''https://YOUR_DEFAULT_MAN_VIDEO_URL/man-default.mp4'',
      DEFAULT_WOMAN_VIDEO_URL = ''https://YOUR_DEFAULT_MAN_VIDEO_URL/woman-default.mp4'',
      fetchTranscript = (\<lambda>url. None),
      mime_lookup = (\<lambda>p. None),
      readFile = (\<lambda>p. Inr ''AAAA''),
      gemini_post = (\<lambda>key parts. GeminiText ''[...]''),
      JSON_parse = (\<lambda>t. Some (JArray exampleScript)),
      axios_get = (\<lambda>t url. None),
      tts_post = (\<lambda>t text' lang voice. TtsAudio ''bXAz''),
      writeFile = (\<lambda>t p. None),
      ffprobe = (\<lambda>t p. Inr (JNumber (Num 2))),
      ffmpeg_loop = (\<lambda>t v a d out. None),
      ffmpeg_concat = (\<lambda>t m out. None),
      fs_unlink = (\<lambda>t p. None),
      unlinkedAtOnce = (\<lambda>t p. True),
      destructureMessage = ''Cannot destructure property 'apiKey' of 'req.body' as it is undefined.''\<rparr>"

definition req0 :: request where
  "req0 =
     \<lparr>apiKey = Some ''key'', topicText = Some ''tea'', youtubeUrl = None,
      podcastLength = Some (codeUnits ''abc''), languageCode = None,
      manVoice = Some ''en-US-chirp-man'', womanVoice = Some ''en-US-chirp-woman'',
      manVideoOption = None, womanVideoOption = None,
      manLibraryVideo = None, womanLibraryVideo = None,
      topicFile = Some ''upload1'', manVideoFile = None, womanVideoFile = None\<rparr>"

text \<open>The same world with the text-generation backend down.\<close>

definition envGeminiDown :: env where
  "envGeminiDown = env0\<lparr>gemini_post := (\<lambda>key parts. GeminiFailed ''Request failed with status code 503'')\<rparr>"

definition scriptOne :: "jsval list" where
  "scriptOne = [JObject [(''speaker'', JString ''Woman''), (''line'', JString ''Hello'')]]"

text \<open>A one-line script whose audio file the probe reports with a negative duration,
  and a media engine that then fails to assemble the clip.\<close>

definition envNegative :: env where
  "envNegative =
     env0\<lparr>JSON_parse := (\<lambda>t. Some (JArray scriptOne)),
          ffprobe := (\<lambda>t p. Inr (JNumber (Num (- 1)))),
          ffmpeg_loop := (\<lambda>t v a d out. Some ''ffmpeg exited with code 1'')\<rparr>"


text \<open>The world of the first example with the woman's default video missing on its server.\<close>

definition envWomanMissing :: env where
  "envWomanMissing =
     env0\<lparr>axios_get := (\<lambda>t url. if url = ''https://YOUR_DEFAULT_MAN_VIDEO_URL/woman-default.mp4''
                                 then Some ''Request failed with status code 404'' else None)\<rparr>"

text \<open>The world of the first example with a media engine that fails to concatenate.\<close>

definition envConcatFails :: env where
  "envConcatFails = env0\<lparr>ffmpeg_concat := (\<lambda>t m out. Some ''ffmpeg exited with code 1'')\<rparr>"



text \<open>The first request with a length of 7 after a no-break space.\<close>

definition reqSeven :: request where
  "reqSeven = req0\<lparr>podcastLength := Some [0xA0, 0x37]\<rparr>"

text \<open>The request of the specification's example: one voice outside the family.\<close>

definition reqPlainVoice :: request where
  "reqPlainVoice = req0\<lparr>manVoice := Some ''en-US-Chirp-Man'', womanVoice := Some ''plain-voice''\<rparr>"

section \<open>Properties of traces\<close>

text \<open>\<open>ext P s s'\<close>: the trace of \<open>s'\<close> is the trace of \<open>s\<close> with newer events, all in \<open>P\<close>.\<close>

definition ext :: "(event \<Rightarrow> bool) \<Rightarrow> state \<Rightarrow> state \<Rightarrow> bool" where
  "ext P s s' = (\<exists>evs. trace s' = evs @ trace s \<and> list_all P evs)"

text \<open>\<open>adds P m\<close>: whatever its outcome, \<open>m\<close> only adds events in \<open>P\<close> to the trace.\<close>

definition adds :: "(event \<Rightarrow> bool) \<Rightarrow> (state \<Rightarrow> 'a res) \<Rightarrow> bool" where
  "adds P m = (\<forall>s. ext P s (snd (m s)))"

text \<open>
  The shape of the events of a run of \<open>req\<close>: what is registered lies in the upload
  directory or is a media file of the work directory, the manifest is a text file of the
  work directory, the prompt starts with the instruction, a clip gets the duration that
  the probe of its audio file returned, and that duration is truthy and not NaN.
\<close>

definition isManifest :: "path \<Rightarrow> bool" where
  "isManifest p = (\<exists>u. p = (WORK_DIR, ''concat_'' @ u @ ''.txt''))"

definition isMedia :: "path \<Rightarrow> bool" where
  "isMedia p = (fst p = WORK_DIR \<and> (\<exists>n. snd p = n @ ''.mp4'' \<or> snd p = n @ ''.mp3''))"

definition runEvent :: "env \<Rightarrow> request \<Rightarrow> event \<Rightarrow> bool" where
  "runEvent E req e =
     (case e of
        EvRegister p \<Rightarrow> fst p = UPLOAD_DIR \<or> isMedia p
      | EvGemini key parts \<Rightarrow>
          key = orDefault [] (apiKey req)
          \<and> (\<exists>rest. parts = Intro (normalizeLength (podcastLength req)) # rest)
      | EvDownload url p \<Rightarrow> isMedia p
      | EvLoop v a d c \<Rightarrow> truthy d \<and> d \<noteq> JNumber NaN \<and> (\<exists>t. ffprobe E t a = Inr d)
      | EvWriteManifest p \<Rightarrow> isManifest p
      | EvConcat m clips out \<Rightarrow> isManifest m \<and> clips \<noteq> [] \<and> fst out = OUTPUT_DIR
      | EvUnlink p \<Rightarrow> isManifest p
      | EvSetTimeout delay paths \<Rightarrow> delay = 30000
      | _ \<Rightarrow> True)"

text \<open>\<open>quiet s s'\<close>: no unlink was requested, no timer set and no response sent
  between \<open>s\<close> and \<open>s'\<close>.\<close>

definition quiet :: "state \<Rightarrow> state \<Rightarrow> bool" where
  "quiet s s' = (pendingUnlinks s' = pendingUnlinks s \<and> timers s' = timers s \<and> response s' = response s)"

definition quietly :: "(state \<Rightarrow> 'a res) \<Rightarrow> bool" where
  "quietly m = (\<forall>s. quiet s (snd (m s)))"

text \<open>\<open>covered req s\<close>: every file on disk is an upload of the request or is registered,
  and nothing of the output directory is registered.\<close>

definition covered :: "request \<Rightarrow> state \<Rightarrow> bool" where
  "covered req s =
     (files s \<subseteq> set (tempUploads req) \<union> set (cleanupPaths s)
      \<and> OUTPUT_DIR \<notin> fst ` set (cleanupPaths s))"

text \<open>
  \<open>unlinkFailed E tr p\<close>: some unlink of \<open>p\<close> in the trace \<open>tr\<close>, awaited or not,
  failed. The time of a call is the position of its event, counted from the oldest.
\<close>

definition unlinkFailed :: "env \<Rightarrow> event list \<Rightarrow> path \<Rightarrow> bool" where
  "unlinkFailed E tr p =
     (\<exists>t < length tr. (rev tr ! t = EvUnlink p \<or> rev tr ! t = EvUnlinkRequested p)
                      \<and> fs_unlink E t p \<noteq> None)"

text \<open>
  The step an event belongs to, by the order of the source: 1 for topic composition, 2
  for script generation, 3 for source resolution, 4 for rendering, 5 for concatenation,
  and 0 for the bookkeeping events, which belong to no step.
\<close>

fun rank :: "event \<Rightarrow> nat" where
  "rank (EvTranscript url) = 1"
| "rank (EvReadFile p) = 1"
| "rank (EvGemini key parts) = 2"
| "rank (EvDownload url p) = 3"
| "rank (EvSynthesize t l v a) = 4"
| "rank (EvWriteAudio a) = 4"
| "rank (EvProbe a) = 4"
| "rank (EvLoop v a d c) = 4"
| "rank (EvWriteManifest m) = 5"
| "rank (EvConcat m clips out) = 5"
| "rank (EvUnlink m) = 5"
| "rank e = 0"

text \<open>The order C4 states: source resolution first, then composition and generation.\<close>

fun claimedRank :: "event \<Rightarrow> nat" where
  "claimedRank (EvDownload url p) = 1"
| "claimedRank (EvTranscript url) = 2"
| "claimedRank (EvReadFile p) = 2"
| "claimedRank (EvGemini key parts) = 3"
| "claimedRank e = rank e"

text \<open>The steps of a trace in the order in which they happened.\<close>

definition stepsOf :: "(event \<Rightarrow> nat) \<Rightarrow> event list \<Rightarrow> nat list" where
  "stepsOf r t = filter (\<lambda>n. 0 < n) (map r (rev t))"

text \<open>\<open>phased k t\<close>, on a trace with the newest event first: the steps of \<open>t\<close> are in
  order and none is later than step \<open>k\<close>.\<close>

fun phased :: "nat \<Rightarrow> event list \<Rightarrow> bool" where
  "phased k [] = True"
| "phased k (e # earlier) =
     (if rank e = 0 then phased k earlier else rank e \<le> k \<and> phased (rank e) earlier)"

text \<open>\<open>okTrace R t\<close>: every event of \<open>t\<close> satisfies \<open>R\<close> with the events before it.\<close>

fun okTrace :: "(event \<Rightarrow> event list \<Rightarrow> bool) \<Rightarrow> event list \<Rightarrow> bool" where
  "okTrace R [] = True"
| "okTrace R (e # earlier) = (R e earlier \<and> okTrace R earlier)"

text \<open>The output of a synthesis, of an audio write and of a clip assembly is registered.\<close>

definition artifactRegistered :: "event \<Rightarrow> event list \<Rightarrow> bool" where
  "artifactRegistered e earlier =
     (case e of
        EvSynthesize t l v a \<Rightarrow> EvRegister a \<in> set earlier
      | EvWriteAudio a \<Rightarrow> EvRegister a \<in> set earlier
      | EvLoop v a d c \<Rightarrow> EvRegister c \<in> set earlier
      | _ \<Rightarrow> True)"

definition allDownloadsRegistered :: "event list \<Rightarrow> bool" where
  "allDownloadsRegistered t = (\<forall>url p. EvDownload url p \<in> set t \<longrightarrow> EvRegister p \<in> set t)"

text \<open>When a line is rendered, every video downloaded before is registered.\<close>

definition downloadsRegistered :: "event \<Rightarrow> event list \<Rightarrow> bool" where
  "downloadsRegistered e earlier =
     (case e of EvSynthesize t l v a \<Rightarrow> allDownloadsRegistered earlier | _ \<Rightarrow> True)"

section \<open>Strings\<close>

lemma includes_str_iff: "includes_str s t \<longleftrightarrow> (\<exists>pre post. s = pre @ t @ post)"
proof (induction s)
  case Nil
  then show ?case by auto
next
  case (Cons c s)
  have "(\<exists>pre post. c # s = pre @ t @ post) \<longleftrightarrow> sublist t (c # s)"
    by (auto simp: sublist_def)
  also have "\<dots> \<longleftrightarrow> prefix t (c # s) \<or> sublist t s"
    by (rule sublist_Cons_right)
  also have "\<dots> \<longleftrightarrow> prefix t (c # s) \<or> (\<exists>pre post. s = pre @ t @ post)"
    by (auto simp: sublist_def)
  finally show ?case using Cons.IH by simp
qed

section \<open>Voice validation\<close>

lemma respond_fields:
  "response (respond r s) = Some r" "trace (respond r s) = EvRespond r # trace s"
  "files (respond r s) = files s" "cleanupPaths (respond r s) = cleanupPaths s"
  "pendingUnlinks (respond r s) = pendingUnlinks s" "timers (respond r s) = timers s"
  "uuids (respond r s) = uuids s"
  by (simp_all add: respond_def emit_def)

text \<open>
  C10, as the code has it. A voice passes validation exactly when it is a string with
  the lowercase token \<open>chirp\<close> inside it, matched case-sensitively (so names with only
  \<open>Chirp\<close> or \<open>CHIRP\<close> fail). A request with a multipart body and a voice that fails
  is answered with status 400, and the handler does nothing else: no call to a backend,
  no file, no registration.
\<close>

theorem voice_validation_rejects_before_any_call:
  "(validateChirpVoice v \<longleftrightarrow> (\<exists>pre post. v = Some (pre @ ''chirp'' @ post)))
   \<and> \<not> validateChirpVoice (Some ''en-US-Chirp-Man'')
   \<and> \<not> validateChirpVoice (Some ''CHIRP'')
   \<and> (\<not> validateChirpVoice (manVoice req) \<or> \<not> validateChirpVoice (womanVoice req) \<longrightarrow>
        (\<exists>m. response (handler E (Some req) s) = Some (Err400 m)
            \<and> trace (handler E (Some req) s) = EvRespond (Err400 m) # trace s
            \<and> files (handler E (Some req) s) = files s
            \<and> cleanupPaths (handler E (Some req) s) = cleanupPaths s
            \<and> pendingUnlinks (handler E (Some req) s) = pendingUnlinks s
            \<and> timers (handler E (Some req) s) = timers s
            \<and> uuids (handler E (Some req) s) = uuids s))"
proof (intro conjI impI)
  show "validateChirpVoice v \<longleftrightarrow> (\<exists>pre post. v = Some (pre @ ''chirp'' @ post))"
    by (cases v) (auto simp: validateChirpVoice_def includes_str_iff)
  show "\<not> validateChirpVoice (Some ''en-US-Chirp-Man'')"
    by (simp add: validateChirpVoice_def)
  show "\<not> validateChirpVoice (Some ''CHIRP'')"
    by (simp add: validateChirpVoice_def)
next
  assume bad: "\<not> validateChirpVoice (manVoice req) \<or> \<not> validateChirpVoice (womanVoice req)"
  then have "handler E (Some req) s = respond (Err400 ''Google Cloud API key is required.'') s
      \<or> handler E (Some req) s = respond (Err400 ''Both voices must be selected from the Chirp family.'') s"
    by (auto simp: handler_def generatePodcast_def)
  then show "\<exists>m. response (handler E (Some req) s) = Some (Err400 m)
            \<and> trace (handler E (Some req) s) = EvRespond (Err400 m) # trace s
            \<and> files (handler E (Some req) s) = files s
            \<and> cleanupPaths (handler E (Some req) s) = cleanupPaths s
            \<and> pendingUnlinks (handler E (Some req) s) = pendingUnlinks s
            \<and> timers (handler E (Some req) s) = timers s
            \<and> uuids (handler E (Some req) s) = uuids s"
    by (auto simp: respond_fields)
qed

theorem voice_validation_rejects_witness:
  "\<not> validateChirpVoice (womanVoice reqPlainVoice)
   \<and> response (serve env0 (Some reqPlainVoice))
       = Some (Err400 ''Both voices must be selected from the Chirp family.'')
   \<and> trace (serve env0 (Some reqPlainVoice))
       = [EvRespond (Err400 ''Both voices must be selected from the Chirp family.'')]"
proof -
  have woman: "\<not> validateChirpVoice (womanVoice reqPlainVoice)"
    by (simp add: reqPlainVoice_def req0_def validateChirpVoice_def)
  then have bad: "\<not> validateChirpVoice (manVoice reqPlainVoice) \<or> \<not> validateChirpVoice (womanVoice reqPlainVoice)"
    by simp
  have key: "truthyS (apiKey reqPlainVoice)"
    by (simp add: reqPlainVoice_def req0_def truthyS_def)
  have serve: "serve env0 (Some reqPlainVoice) = handler env0 (Some reqPlainVoice) (initState reqPlainVoice)"
    by (simp add: serve_def)
  from voice_validation_rejects_before_any_call [of None reqPlainVoice env0 "initState reqPlainVoice"] bad
  obtain m where m: "response (handler env0 (Some reqPlainVoice) (initState reqPlainVoice)) = Some (Err400 m)"
    and t: "trace (handler env0 (Some reqPlainVoice) (initState reqPlainVoice))
              = EvRespond (Err400 m) # trace (initState reqPlainVoice)"
    by blast
  have "handler env0 (Some reqPlainVoice) (initState reqPlainVoice)
          = respond (Err400 ''Both voices must be selected from the Chirp family.'') (initState reqPlainVoice)"
    using bad key by (simp add: handler_def generatePodcast_def)
  then have "m = ''Both voices must be selected from the Chirp family.''"
    using m by (simp add: respond_fields)
  with m t woman show ?thesis by (simp add: serve initState_def)
qed

text \<open>
  C10 as stated fails on a request without a multipart body: it has no voice that is a
  string with \<open>chirp\<close> inside, and it is answered with status 500, not 400.
\<close>

theorem request_without_body_is_answered_500:
  "response (serve env0 None) = Some (Err500 (destructureMessage env0))
   \<and> trace (serve env0 None) = [EvRespond (Err500 (destructureMessage env0))]
   \<and> destructureMessage env0 \<noteq> []"
  by (simp add: serve_def handler_def catchBlock_def cleanupFiles_def idle_def respond_def emit_def
      env0_def)

section \<open>How the steps extend the trace\<close>

lemma trace_emit [simp]: "trace (emit e s) = e # trace s"
  by (simp add: emit_def)

lemma trace_register [simp]: "trace (register p s) = EvRegister p # trace s"
  by (simp add: register_def)

lemma trace_respond [simp]: "trace (respond r s) = EvRespond r # trace s"
  by (simp add: respond_def)

lemma ext_refl: "ext P s s"
  by (simp add: ext_def)

lemma ext_trans: "ext P s s1 \<Longrightarrow> ext P s1 s2 \<Longrightarrow> ext P s s2"
  by (auto simp: ext_def)

lemma ext_mono: "ext P s s' \<Longrightarrow> (\<And>e. P e \<Longrightarrow> Q e) \<Longrightarrow> ext Q s s'"
  by (auto simp: ext_def list_all_iff)

lemma ext0: "trace s' = trace s \<Longrightarrow> ext P s s'"
  by (simp add: ext_def)

lemma ext1: "trace s' = e # trace s \<Longrightarrow> P e \<Longrightarrow> ext P s s'"
  unfolding ext_def by (rule exI [of _ "[e]"]) simp

lemma ext2: "trace s' = e1 # e2 # trace s \<Longrightarrow> P e1 \<Longrightarrow> P e2 \<Longrightarrow> ext P s s'"
  unfolding ext_def by (rule exI [of _ "[e1, e2]"]) simp

lemma ext3: "trace s' = e1 # e2 # e3 # trace s \<Longrightarrow> P e1 \<Longrightarrow> P e2 \<Longrightarrow> P e3 \<Longrightarrow> ext P s s'"
  unfolding ext_def by (rule exI [of _ "[e1, e2, e3]"]) simp

lemma adds_ret: "adds P (ret x)"
  by (simp add: adds_def ret_def ext_refl)

lemma adds_throw: "adds P (throw e)"
  by (simp add: adds_def throw_def ext_refl)

lemma adds_andThen: "adds P m \<Longrightarrow> (\<And>x. adds P (f x)) \<Longrightarrow> adds P (andThen m f)"
  unfolding adds_def andThen_def
proof
  fix s
  assume m: "\<forall>s. ext P s (snd (m s))" and f: "\<And>x. \<forall>s. ext P s (snd (f x s))"
  obtain r s1 where ms: "m s = (r, s1)" by (cases "m s")
  have e1: "ext P s s1" using m ms by (metis snd_conv)
  show "ext P s (snd (case m s of (Inl e, s') \<Rightarrow> (Inl e, s') | (Inr x, s') \<Rightarrow> f x s'))"
  proof (cases r)
    case (Inl e)
    then show ?thesis using ms e1 by simp
  next
    case (Inr x)
    then show ?thesis using ms e1 f [of x] by (auto intro: ext_trans)
  qed
qed

lemma adds_mono: "adds P m \<Longrightarrow> (\<And>e. P e \<Longrightarrow> Q e) \<Longrightarrow> adds Q m"
  by (auto simp: adds_def intro: ext_mono)

lemma adds_uuidv4: "adds P (uuidv4 E)"
  by (simp add: adds_def uuidv4_def ext_def)

lemma trace_youtubePart:
  "trace (snd (youtubePart E y s)) = (if truthyS y then EvTranscript (orDefault [] y) # trace s else trace s)"
  by (simp add: youtubePart_def extractYouTubeTranscript_def ret_def Let_def split: option.splits)

lemma adds_youtubePart:
  assumes "\<And>url. P (EvTranscript url)"
  shows "adds P (youtubePart E y)"
  unfolding adds_def
proof
  fix s
  show "ext P s (snd (youtubePart E y s))"
  proof (cases "truthyS y")
    case True
    then show ?thesis
      by (intro ext1 [where e = "EvTranscript (orDefault [] y)"] assms) (simp add: trace_youtubePart)
  next
    case False
    then show ?thesis by (intro ext0) (simp add: trace_youtubePart)
  qed
qed

lemma trace_filePart:
  "trace (snd (filePart E f s)) = (case f of None \<Rightarrow> trace s | Some p \<Rightarrow> EvReadFile p # trace s)"
  by (simp add: filePart_def ret_def throw_def Let_def split: option.splits sum.splits)

lemma adds_filePart:
  assumes "\<And>p. P (EvReadFile p)"
  shows "adds P (filePart E f)"
  unfolding adds_def
proof
  fix s
  show "ext P s (snd (filePart E f s))"
  proof (cases f)
    case None
    then show ?thesis by (intro ext0) (simp add: trace_filePart)
  next
    case (Some p)
    then show ?thesis
      by (intro ext1 [where e = "EvReadFile p"] assms) (simp add: trace_filePart)
  qed
qed

lemma adds_prepareTopicParts:
  "(\<And>url. P (EvTranscript url)) \<Longrightarrow> (\<And>p. P (EvReadFile p)) \<Longrightarrow>
   adds P (prepareTopicParts E a b c d)"
  unfolding prepareTopicParts_def Let_def
  by (intro adds_andThen adds_youtubePart adds_filePart adds_ret)

lemma trace_callGemini: "trace (snd (callGemini E key parts s)) = EvGemini key parts # trace s"
  by (simp add: callGemini_def ret_def throw_def Let_def
      split: gemini_reply.splits option.splits jsval.splits)

lemma adds_callGemini: "P (EvGemini key parts) \<Longrightarrow> adds P (callGemini E key parts)"
  unfolding adds_def by (auto simp: trace_callGemini intro: ext1)

lemma trace_downloadFile: "trace (snd (downloadFile E url p s)) = EvDownload url p # trace s"
  by (simp add: downloadFile_def ret_def throw_def Let_def split: option.splits)

lemma adds_downloadFile: "P (EvDownload url p) \<Longrightarrow> adds P (downloadFile E url p)"
  unfolding adds_def by (auto simp: trace_downloadFile intro: ext1)

lemma adds_resolveVideoSource:
  "(\<And>url u. P (EvDownload url (WORK_DIR, sp @ ''_'' @ u @ ''.mp4''))) \<Longrightarrow>
   adds P (resolveVideoSource E opt up key sp)"
  unfolding resolveVideoSource_def Let_def
  by (cases up) (simp_all add: adds_andThen adds_uuidv4 adds_downloadFile adds_ret adds_throw)

lemma trace_synthesizeSpeech:
  "trace (snd (synthesizeSpeech E k t l v p s)) = EvSynthesize t l v p # trace s
   \<or> trace (snd (synthesizeSpeech E k t l v p s)) = EvWriteAudio p # EvSynthesize t l v p # trace s"
  by (simp add: synthesizeSpeech_def ret_def throw_def Let_def
      split: tts_reply.splits option.splits)

lemma adds_synthesizeSpeech:
  "P (EvSynthesize t l v p) \<Longrightarrow> P (EvWriteAudio p) \<Longrightarrow> adds P (synthesizeSpeech E k t l v p)"
  unfolding adds_def using trace_synthesizeSpeech by (blast intro: ext1 ext2)

lemma trace_getMediaDuration: "trace (snd (getMediaDuration E p s)) = EvProbe p # trace s"
  by (simp add: getMediaDuration_def ret_def throw_def split: sum.splits)

lemma adds_getMediaDuration: "P (EvProbe p) \<Longrightarrow> adds P (getMediaDuration E p)"
  unfolding adds_def by (auto simp: trace_getMediaDuration intro: ext1)

lemma trace_loopVideoWithAudio:
  "trace (snd (loopVideoWithAudio E v a d out s)) = EvLoop v a d out # trace s"
  by (simp add: loopVideoWithAudio_def ret_def throw_def Let_def
      split: jsval.splits option.splits)

lemma adds_loopVideoWithAudio:
  "P (EvLoop v a d out) \<Longrightarrow> adds P (loopVideoWithAudio E v a d out)"
  unfolding adds_def by (auto simp: trace_loopVideoWithAudio intro: ext1)


lemma andThen_Inr: "m s = (Inr x, s') \<Longrightarrow> andThen m f s = f x s'"
  by (simp add: andThen_def)

lemma andThen_Inl: "m s = (Inl e, s') \<Longrightarrow> andThen m f s = (Inl e, s')"
  by (simp add: andThen_def)

lemma andThen_uuidv4: "andThen (uuidv4 E) f s = f (uuid E (uuids s)) (s\<lparr>uuids := Suc (uuids s)\<rparr>)"
  by (simp add: andThen_def uuidv4_def)

lemma andThen_cases:
  assumes "andThen m f s = (r, s'')"
  obtains (Inl) e where "m s = (Inl e, s'')" "r = Inl e"
  | (Inr) x s' where "m s = (Inr x, s')" "f x s' = (r, s'')"
proof (cases "m s")
  case (Pair a s')
  show ?thesis
  proof (cases a)
    case (Inl e)
    with Pair assms show ?thesis by (auto simp: andThen_def intro: that(1))
  next
    case (Inr x)
    with Pair assms show ?thesis by (auto simp: andThen_def intro: that(2))
  qed
qed

lemma tryBlock_cases:
  obtains (script_fails) m s1 where
      "getScript E req s = (Inl m, s1)" "tryBlock E req s = (Inl m, s1)"
  | (resolve_fails) script s1 m s2 where
      "getScript E req s = (Inr script, s1)" "resolveSources E req s1 = (Inl m, s2)"
      "tryBlock E req s = (Inl m, s2)"
  | (render_fails) script s1 mv wv s2 m s3 where
      "getScript E req s = (Inr script, s1)" "resolveSources E req s1 = (Inr (mv, wv), s2)"
      "renderLines E (loopCtx req mv wv) 0 script [] s2 = (Inl m, s3)"
      "tryBlock E req s = (Inl m, s3)"
  | (rendered) script s1 mv wv s2 clips s3 where
      "getScript E req s = (Inr script, s1)" "resolveSources E req s1 = (Inr (mv, wv), s2)"
      "renderLines E (loopCtx req mv wv) 0 script [] s2 = (Inr clips, s3)"
      "tryBlock E req s = finishRun E req clips s3"
proof (cases "getScript E req s")
  case (Pair a s1)
  show ?thesis
  proof (cases a)
    case (Inl m)
    with Pair show ?thesis by (intro script_fails [of m s1]) (simp_all add: tryBlock_def andThen_def)
  next
    case (Inr script)
    note gs = Pair [unfolded Inr]
    show ?thesis
    proof (cases "resolveSources E req s1")
      case (Pair b s2)
      show ?thesis
      proof (cases b)
        case (Inl m)
        with Pair gs show ?thesis
          by (intro resolve_fails [of script s1 m s2]) (simp_all add: tryBlock_def andThen_def)
      next
        case (Inr vw)
        obtain mv wv where vw: "vw = (mv, wv)" by (cases vw)
        note rs = Pair [unfolded Inr vw]
        show ?thesis
        proof (cases "renderLines E (loopCtx req mv wv) 0 script [] s2")
          case (Pair c s3)
          show ?thesis
          proof (cases c)
            case (Inl m)
            with Pair gs rs show ?thesis
              by (intro render_fails [of script s1 mv wv s2 m s3]) (simp_all add: tryBlock_def andThen_def)
          next
            case (Inr clips)
            with Pair gs rs show ?thesis
              by (intro rendered [of script s1 mv wv s2 clips s3]) (simp_all add: tryBlock_def andThen_def)
          qed
        qed
      qed
    qed
  qed
qed

lemma adds_state: "(\<And>s. ext P s (g s)) \<Longrightarrow> adds P (\<lambda>s. ret x (g s))"
  by (simp add: adds_def ret_def)

lemma adds_after: "(\<And>s. ext P s (g s)) \<Longrightarrow> adds P m \<Longrightarrow> adds P (\<lambda>s. m (g s))"
  unfolding adds_def by (blast intro: ext_trans)

lemma adds_concatenateClips:
  assumes "\<And>u. P (EvWriteManifest (WORK_DIR, ''concat_'' @ u @ ''.txt''))"
    and "\<And>u. P (EvConcat (WORK_DIR, ''concat_'' @ u @ ''.txt'') clips out)"
    and "\<And>u. P (EvUnlink (WORK_DIR, ''concat_'' @ u @ ''.txt''))"
  shows "adds P (concatenateClips E clips out)"
  unfolding adds_def
proof
  fix s :: state
  let ?m = "(WORK_DIR, ''concat_'' @ uuid E (uuids s) @ ''.txt'')"
  let ?s' = "snd (concatenateClips E clips out s)"
  have "trace ?s' = EvWriteManifest ?m # trace s
      \<or> trace ?s' = EvConcat ?m clips out # EvWriteManifest ?m # trace s
      \<or> trace ?s' = EvUnlink ?m # EvConcat ?m clips out # EvWriteManifest ?m # trace s"
    by (simp add: concatenateClips_def andThen_uuidv4 Let_def ret_def throw_def split: option.splits)
  then show "ext P s ?s'"
    using assms by (blast intro: ext1 ext2 ext3)
qed

lemma adds_andThen_result:
  assumes m: "adds P m" and f: "\<And>x s s'. m s = (Inr x, s') \<Longrightarrow> adds P (f x)"
  shows "adds P (andThen m f)"
  unfolding adds_def
proof
  fix s
  obtain r s1 where ms: "m s = (r, s1)" by (cases "m s")
  have e1: "ext P s s1" using m ms by (metis adds_def snd_conv)
  show "ext P s (snd (andThen m f s))"
  proof (cases r)
    case (Inl e)
    then show ?thesis using ms e1 by (simp add: andThen_def)
  next
    case (Inr x)
    have "ext P s1 (snd (f x s1))"
      using f [OF ms [unfolded Inr]] by (simp add: adds_def)
    then show ?thesis using ms e1 Inr by (auto simp: andThen_def intro: ext_trans)
  qed
qed

lemma getMediaDuration_result:
  "getMediaDuration E p s = (Inr d, s') \<Longrightarrow> ffprobe E (now s) p = Inr d"
  by (auto simp: getMediaDuration_def ret_def throw_def split: sum.splits)

lemma adds_renderBody:
  assumes "\<And>t l v. P (EvSynthesize t l v a)" "P (EvWriteAudio a)" "P (EvProbe a)"
    and "\<And>v d t. ffprobe E t a = Inr d \<Longrightarrow> truthy d \<Longrightarrow> d \<noteq> JNumber NaN \<Longrightarrow> P (EvLoop v a d c)"
  shows "adds P (renderBody E C line a c)"
proof (cases "getProp line ''speaker''")
  case (JString speaker)
  have tail: "adds P (if \<not> truthy d \<or> d = JNumber NaN
                      then throw ''Unable to determine audio duration.''
                      else andThen (loopVideoWithAudio E v a d c) (\<lambda>_. ret c))"
    if "getMediaDuration E a s = (Inr d, s')" for d v s s'
    using getMediaDuration_result [OF that]
    by (cases "\<not> truthy d \<or> d = JNumber NaN")
      (auto simp: adds_throw intro!: adds_andThen adds_loopVideoWithAudio adds_ret assms(4))
  show ?thesis
    unfolding renderBody_def JString jsval.case Let_def
    apply (rule adds_andThen)
     apply (rule adds_synthesizeSpeech; rule assms)
    apply (rule adds_andThen_result)
     apply (rule adds_getMediaDuration; rule assms)
    apply (erule tail)
    done
qed (simp_all add: renderBody_def adds_throw)

lemma ext_register2: "P (EvRegister a) \<Longrightarrow> P (EvRegister c) \<Longrightarrow> ext P s (register c (register a s))"
  by (rule ext2 [where ?e1.0 = "EvRegister c" and ?e2.0 = "EvRegister a"]) simp_all

lemma adds_renderLine:
  assumes "\<And>u. P (EvRegister (audioPathOf u i))" "\<And>u. P (EvRegister (clipPathOf u i))"
    and "\<And>t l v a. P (EvSynthesize t l v a)" "\<And>a. P (EvWriteAudio a)" "\<And>a. P (EvProbe a)"
    and "\<And>v a d c t. ffprobe E t a = Inr d \<Longrightarrow> truthy d \<Longrightarrow> d \<noteq> JNumber NaN \<Longrightarrow> P (EvLoop v a d c)"
  shows "adds P (renderLine E C i line)"
proof -
  have "adds P (\<lambda>s. renderBody E C line (audioPathOf u1 i) (clipPathOf u2 i)
                  (register (clipPathOf u2 i) (register (audioPathOf u1 i) s)))" for u1 u2
    by (rule adds_after [where m = "renderBody E C line (audioPathOf u1 i) (clipPathOf u2 i)"])
      (intro ext_register2 adds_renderBody assms)+
  then show ?thesis
    unfolding renderLine_def Let_def
    by (intro adds_andThen adds_uuidv4)
qed

lemma adds_renderLines:
  assumes "\<And>u i. P (EvRegister (audioPathOf u i))" "\<And>u i. P (EvRegister (clipPathOf u i))"
    and "\<And>t l v a. P (EvSynthesize t l v a)" "\<And>a. P (EvWriteAudio a)" "\<And>a. P (EvProbe a)"
    and "\<And>v a d c t. ffprobe E t a = Inr d \<Longrightarrow> truthy d \<Longrightarrow> d \<noteq> JNumber NaN \<Longrightarrow> P (EvLoop v a d c)"
  shows "adds P (renderLines E C i script acc)"
proof (induction script arbitrary: i acc)
  case Nil
  show ?case by (simp add: adds_def ext_refl)
next
  case (Cons line rest)
  have line: "adds P (renderLine E C i line)"
    by (intro adds_renderLine assms)
  show ?case
    unfolding adds_def
  proof
    fix s
    show "ext P s (snd (renderLines E C i (line # rest) acc s))"
    proof (cases "wellFormed line")
      case False
      then show ?thesis using Cons.IH [of "i + 1" acc] by (simp add: adds_def)
    next
      case True
      obtain r s1 where r: "renderLine E C i line s = (r, s1)" by (cases "renderLine E C i line s")
      then have e1: "ext P s s1" using line by (metis adds_def snd_conv)
      show ?thesis
      proof (cases r)
        case (Inl m)
        with True r e1 show ?thesis by simp
      next
        case (Inr clip)
        have "ext P s1 (snd (renderLines E C (i + 1) rest (acc @ [clip]) s1))"
          using Cons.IH [of "i + 1" "acc @ [clip]"] by (simp add: adds_def)
        with True r Inr e1 show ?thesis by (auto intro: ext_trans)
      qed
    qed
  qed
qed

lemma ext_registerDownloads:
  assumes "Some mv \<noteq> mu \<Longrightarrow> P (EvRegister mv)" "Some wv \<noteq> wu \<Longrightarrow> P (EvRegister wv)"
  shows "ext P s (registerDownloads mv mu wv wu s)"
proof -
  have 1: "ext P s (if Some mv \<noteq> mu then register mv s else s)"
    using assms(1) by (auto intro: ext_refl ext1 [where e = "EvRegister mv"])
  have 2: "ext P s' (if Some wv \<noteq> wu then register wv s' else s')" for s'
    using assms(2) by (auto intro: ext_refl ext1 [where e = "EvRegister wv"])
  show ?thesis
    unfolding registerDownloads_def Let_def by (rule ext_trans [OF 1 2])
qed

lemma resolveVideoSource_result:
  assumes "resolveVideoSource E opt up key sp s = (Inr p, s')"
  shows "Some p = up \<or> p = (WORK_DIR, sp @ ''_'' @ uuid E (uuids s) @ ''.mp4'')"
proof (cases "opt = ''custom''")
  case True
  with assms show ?thesis
    by (cases up) (simp_all add: resolveVideoSource_def throw_def ret_def)
next
  case False
  with assms show ?thesis
    by (simp add: resolveVideoSource_def andThen_uuidv4 Let_def downloadFile_def throw_def ret_def
        split: option.splits)
qed

lemma adds_resolveSources:
  assumes dl: "\<And>url sp u. P (EvDownload url (WORK_DIR, sp @ ''_'' @ u @ ''.mp4''))"
    and reg: "\<And>sp u. P (EvRegister (WORK_DIR, sp @ ''_'' @ u @ ''.mp4''))"
  shows "adds P (resolveSources E req)"
  unfolding adds_def
proof
  fix s
  let ?man = "resolveVideoSource E (orDefault ''default'' (manVideoOption req))
                (uploadPath (manVideoFile req)) (manLibraryVideo req) ''man''"
  let ?woman = "resolveVideoSource E (orDefault ''default'' (womanVideoOption req))
                (uploadPath (womanVideoFile req)) (womanLibraryVideo req) ''woman''"
  have man: "adds P ?man"
    by (rule adds_resolveVideoSource) (rule dl)
  have woman: "adds P ?woman"
    by (rule adds_resolveVideoSource) (rule dl)
  obtain r1 s1 where r1: "?man s = (r1, s1)" by (cases "?man s")
  then have e1: "ext P s s1" using man by (metis adds_def snd_conv)
  show "ext P s (snd (resolveSources E req s))"
  proof (cases r1)
    case (Inl m)
    with r1 e1 show ?thesis by (simp add: resolveSources_def andThen_def)
  next
    case (Inr mv)
    note r1 = r1 [unfolded Inr]
    obtain r2 s2 where r2: "?woman s1 = (r2, s2)" by (cases "?woman s1")
    then have e2: "ext P s1 s2" using woman by (metis adds_def snd_conv)
    show ?thesis
    proof (cases r2)
      case (Inl m)
      with r1 r2 e1 e2 show ?thesis
        by (auto simp: resolveSources_def andThen_def intro: ext_trans)
    next
      case (Inr wv)
      note r2 = r2 [unfolded Inr]
      have regm: "P (EvRegister mv)" if "Some mv \<noteq> uploadPath (manVideoFile req)"
      proof -
        from resolveVideoSource_result [OF r1] that
        have "mv = (WORK_DIR, ''man'' @ ''_'' @ uuid E (uuids s) @ ''.mp4'')" by blast
        then show ?thesis by (simp only: reg)
      qed
      have regw: "P (EvRegister wv)" if "Some wv \<noteq> uploadPath (womanVideoFile req)"
      proof -
        from resolveVideoSource_result [OF r2] that
        have "wv = (WORK_DIR, ''woman'' @ ''_'' @ uuid E (uuids s1) @ ''.mp4'')" by blast
        then show ?thesis by (simp only: reg)
      qed
      have "ext P s2 (registerDownloads mv (uploadPath (manVideoFile req)) wv
                        (uploadPath (womanVideoFile req)) s2)"
        by (intro ext_registerDownloads regm regw)
      with r1 r2 e1 e2 show ?thesis
        by (auto simp: resolveSources_def andThen_def ret_def intro: ext_trans)
    qed
  qed
qed

lemma ext_fold_register:
  "(\<And>p. p \<in> set ps \<Longrightarrow> P (EvRegister p)) \<Longrightarrow> ext P s (fold register ps s)"
proof (induction ps arbitrary: s)
  case Nil
  then show ?case by (simp add: ext_refl)
next
  case (Cons p ps)
  have "ext P s (register p s)"
    by (rule ext1 [where e = "EvRegister p"]) (simp_all add: Cons.prems)
  moreover have "ext P (register p s) (fold register ps (register p s))"
    by (rule Cons.IH) (simp add: Cons.prems)
  ultimately show ?case by (auto intro: ext_trans)
qed

lemma tempUploads_dir: "p \<in> set (tempUploads req) \<Longrightarrow> fst p = UPLOAD_DIR"
  by (cases "topicFile req"; cases "manVideoFile req"; cases "womanVideoFile req")
    (auto simp: tempUploads_def uploadPath_def List.map_filter_simps)

lemma ext_setTimeout: "P (EvSetTimeout d (cleanupPaths s)) \<Longrightarrow> ext P s (setTimeout d s)"
  by (rule ext1 [where e = "EvSetTimeout d (cleanupPaths s)"]) (simp_all add: setTimeout_def)

lemma adds_finishRun:
  assumes "\<And>u. P (EvWriteManifest (WORK_DIR, ''concat_'' @ u @ ''.txt''))"
    and "\<And>u out. clips \<noteq> [] \<Longrightarrow> P (EvConcat (WORK_DIR, ''concat_'' @ u @ ''.txt'') clips (OUTPUT_DIR, out))"
    and "\<And>u. P (EvUnlink (WORK_DIR, ''concat_'' @ u @ ''.txt''))"
    and "\<And>url. P (EvRespond (Ok200 url))"
    and "\<And>n. P (EvRegister (UPLOAD_DIR, n))"
    and "\<And>ps. P (EvSetTimeout 30000 ps)"
  shows "adds P (finishRun E req clips)"
proof (cases "clips = []")
  case True
  then show ?thesis by (simp add: finishRun_def adds_throw)
next
  case False
  have reg: "P (EvRegister p)" if "p \<in> set (tempUploads req)" for p
    using tempUploads_dir [OF that] assms(5) [of "snd p"] by (cases p) simp
  have tail: "ext P s (setTimeout 30000 (fold register (tempUploads req) (respond (Ok200 url) s)))"
    for s url
  proof -
    have "ext P s (respond (Ok200 url) s)"
      by (rule ext1 [where e = "EvRespond (Ok200 url)"]) (simp_all add: assms)
    moreover have "ext P (respond (Ok200 url) s) (fold register (tempUploads req) (respond (Ok200 url) s))"
      by (rule ext_fold_register) (rule reg)
    moreover have "ext P (fold register (tempUploads req) (respond (Ok200 url) s))
        (setTimeout 30000 (fold register (tempUploads req) (respond (Ok200 url) s)))"
      by (rule ext_setTimeout) (rule assms)
    ultimately show ?thesis by (blast intro: ext_trans)
  qed
  show ?thesis
    unfolding finishRun_def Let_def using False
    apply simp
    apply (rule adds_andThen [OF adds_uuidv4])
    apply (rule adds_andThen)
     apply (rule adds_concatenateClips)
       apply (rule assms)
      apply (rule assms, assumption)
     apply (rule assms)
    apply (rule adds_state)
    apply (rule tail)
    done
qed

lemma prepareTopicParts_result:
  assumes "prepareTopicParts E a b c L s = (Inr parts, s')"
  shows "\<exists>rest. parts = Intro L # rest"
  using assms unfolding prepareTopicParts_def Let_def
  by (auto elim!: andThen_cases simp: ret_def split: if_splits)

lemma adds_getScript:
  assumes "\<And>url. P (EvTranscript url)" "\<And>p. P (EvReadFile p)"
    and "\<And>rest. P (EvGemini (orDefault [] (apiKey req))
                   (Intro (normalizeLength (podcastLength req)) # rest))"
  shows "adds P (getScript E req)"
  unfolding adds_def
proof
  fix s
  let ?prep = "prepareTopicParts E (topicText req) (youtubeUrl req) (uploadPath (topicFile req))
                 (normalizeLength (podcastLength req))"
  have prep: "adds P ?prep"
    by (intro adds_prepareTopicParts assms)
  obtain r s1 where r: "?prep s = (r, s1)" by (cases "?prep s")
  then have e1: "ext P s s1" using prep by (metis adds_def snd_conv)
  show "ext P s (snd (getScript E req s))"
  proof (cases r)
    case (Inl m)
    with r e1 show ?thesis by (simp add: getScript_def andThen_def)
  next
    case (Inr parts)
    from prepareTopicParts_result [OF r [unfolded Inr]]
    obtain rest where parts: "parts = Intro (normalizeLength (podcastLength req)) # rest" by blast
    have "adds P (callGemini E (orDefault [] (apiKey req)) parts)"
      unfolding parts by (rule adds_callGemini) (rule assms)
    then have "ext P s1 (snd (callGemini E (orDefault [] (apiKey req)) parts s1))"
      by (simp add: adds_def)
    with r Inr e1 show ?thesis
      by (auto simp: getScript_def andThen_def intro: ext_trans)
  qed
qed

lemma adds_tryBlock:
  assumes "\<And>url. P (EvTranscript url)" "\<And>p. P (EvReadFile p)"
    and "\<And>rest. P (EvGemini (orDefault [] (apiKey req))
                   (Intro (normalizeLength (podcastLength req)) # rest))"
    and "\<And>url sp u. P (EvDownload url (WORK_DIR, sp @ ''_'' @ u @ ''.mp4''))"
    and "\<And>sp u. P (EvRegister (WORK_DIR, sp @ ''_'' @ u @ ''.mp4''))"
    and "\<And>u i. P (EvRegister (audioPathOf u i))" "\<And>u i. P (EvRegister (clipPathOf u i))"
    and "\<And>t l v a. P (EvSynthesize t l v a)" "\<And>a. P (EvWriteAudio a)" "\<And>a. P (EvProbe a)"
    and "\<And>v a d c t. ffprobe E t a = Inr d \<Longrightarrow> truthy d \<Longrightarrow> d \<noteq> JNumber NaN \<Longrightarrow> P (EvLoop v a d c)"
    and "\<And>u. P (EvWriteManifest (WORK_DIR, ''concat_'' @ u @ ''.txt''))"
    and "\<And>u clips out. clips \<noteq> [] \<Longrightarrow>
           P (EvConcat (WORK_DIR, ''concat_'' @ u @ ''.txt'') clips (OUTPUT_DIR, out))"
    and "\<And>u. P (EvUnlink (WORK_DIR, ''concat_'' @ u @ ''.txt''))"
    and "\<And>url. P (EvRespond (Ok200 url))"
    and "\<And>n. P (EvRegister (UPLOAD_DIR, n))"
    and "\<And>ps. P (EvSetTimeout 30000 ps)"
  shows "adds P (tryBlock E req)"
  unfolding tryBlock_def
  apply (rule adds_andThen)
   apply (rule adds_getScript; rule assms)
  apply (rule adds_andThen)
   apply (rule adds_resolveSources; rule assms)
  apply (simp only: split_paired_all prod.case)
  apply (rule adds_andThen)
   apply (rule adds_renderLines; rule assms; assumption)
  apply (rule adds_finishRun; rule assms; assumption?)
  done

lemma cleanupFiles_Nil: "cleanupFiles E [] s = s"
  by (simp add: cleanupFiles_def)

lemma cleanupFiles_Cons:
  "cleanupFiles E (p # ps) s =
     cleanupFiles E ps
       (emit (EvUnlinkRequested p)
          (s\<lparr>files := (if fs_unlink E (now s) p = None \<and> unlinkedAtOnce E (now s) p
                        then files s - {p} else files s),
             pendingUnlinks := pendingUnlinks s @ [(now s, p)]\<rparr>))"
  by (simp add: cleanupFiles_def Let_def)

lemma ext_cleanupFiles:
  "(\<And>p. P (EvUnlinkRequested p)) \<Longrightarrow> ext P s (cleanupFiles E ps s)"
proof (induction ps arbitrary: s)
  case Nil
  then show ?case by (simp add: ext_refl cleanupFiles_Nil)
next
  case (Cons p ps)
  let ?s1 = "emit (EvUnlinkRequested p)
          (s\<lparr>files := (if fs_unlink E (now s) p = None \<and> unlinkedAtOnce E (now s) p
                        then files s - {p} else files s),
             pendingUnlinks := pendingUnlinks s @ [(now s, p)]\<rparr>)"
  have "ext P s ?s1"
    by (rule ext1 [where e = "EvUnlinkRequested p"]) (simp_all add: Cons.prems)
  moreover have "ext P ?s1 (cleanupFiles E ps ?s1)"
    by (rule Cons.IH) (rule Cons.prems)
  ultimately show ?case unfolding cleanupFiles_Cons by (rule ext_trans)
qed

lemma ext_catchBlock:
  assumes "\<And>p. P (EvUnlinkRequested p)" "\<And>m. P (EvRespond (Err500 m))"
  shows "ext P s (catchBlock E message s)"
proof -
  let ?r = "Err500 (if message = [] then ''Failed to generate podcast.'' else message)"
  have "ext P s (cleanupFiles E (cleanupPaths s) s)"
    by (rule ext_cleanupFiles) (rule assms)
  moreover have "ext P (cleanupFiles E (cleanupPaths s) s) (respond ?r (cleanupFiles E (cleanupPaths s) s))"
    by (rule ext1 [where e = "EvRespond ?r"]) (simp_all add: assms)
  ultimately show ?thesis
    unfolding catchBlock_def by (rule ext_trans)
qed

lemma ext_generatePodcast:
  assumes tb: "adds P (tryBlock E req)"
    and "\<And>p. P (EvUnlinkRequested p)" "\<And>m. P (EvRespond (Err500 m))"
    and "\<And>m. P (EvRespond (Err400 m))"
  shows "ext P s (generatePodcast E req s)"
proof -
  have bad: "ext P s (respond (Err400 m) s)" for m
    by (rule ext1 [where e = "EvRespond (Err400 m)"]) (simp_all add: assms)
  obtain r s1 where r: "tryBlock E req s = (r, s1)" by (cases "tryBlock E req s")
  then have e1: "ext P s s1" using tb by (metis adds_def snd_conv)
  have "ext P s1 (catchBlock E m s1)" for m
    by (rule ext_catchBlock) (rule assms)+
  with e1 have "ext P s (catchBlock E m s1)" for m
    by (blast intro: ext_trans)
  with r e1 bad show ?thesis
    by (cases r) (auto simp: generatePodcast_def)
qed

lemma audioPathOf_media: "isMedia (audioPathOf u i)"
  by (simp add: isMedia_def audioPathOf_def sanitizeFileName_def)

lemma clipPathOf_media: "isMedia (clipPathOf u i)"
  by (simp add: isMedia_def clipPathOf_def)

lemma run_events: "ext (runEvent E req) s (generatePodcast E req s)"
proof (rule ext_generatePodcast)
  show "adds (runEvent E req) (tryBlock E req)"
    by (rule adds_tryBlock)
      (auto simp: runEvent_def isMedia_def isManifest_def audioPathOf_media clipPathOf_media
          audioPathOf_media [unfolded isMedia_def] clipPathOf_media [unfolded isMedia_def])
qed (simp_all add: runEvent_def)

section \<open>The outcome of a run\<close>

lemma trace_run: "list_all (runEvent E req) (trace (run E req))"
  using run_events [of E req "initState req"]
  by (simp add: run_def ext_def initState_def)

lemma response_catchBlock:
  "response (catchBlock E m s) = Some (Err500 (if m = [] then ''Failed to generate podcast.'' else m))"
  by (simp add: catchBlock_def respond_fields)

lemma register_fields [simp]:
  "response (register p s) = response s" "files (register p s) = files s"
  "cleanupPaths (register p s) = cleanupPaths s @ [p]" "timers (register p s) = timers s"
  "pendingUnlinks (register p s) = pendingUnlinks s" "uuids (register p s) = uuids s"
  by (simp_all add: register_def emit_def)

lemma fold_register_fields [simp]:
  "response (fold register ps s) = response s" "files (fold register ps s) = files s"
  "cleanupPaths (fold register ps s) = cleanupPaths s @ ps" "timers (fold register ps s) = timers s"
  "pendingUnlinks (fold register ps s) = pendingUnlinks s" "uuids (fold register ps s) = uuids s"
  "trace (fold register ps s) = map EvRegister (rev ps) @ trace s"
  by (induction ps arbitrary: s) simp_all

lemma setTimeout_fields [simp]:
  "response (setTimeout d s) = response s" "files (setTimeout d s) = files s"
  "cleanupPaths (setTimeout d s) = cleanupPaths s" "timers (setTimeout d s) = timers s @ [(d, cleanupPaths s)]"
  "pendingUnlinks (setTimeout d s) = pendingUnlinks s" "uuids (setTimeout d s) = uuids s"
  "trace (setTimeout d s) = EvSetTimeout d (cleanupPaths s) # trace s"
  by (simp_all add: setTimeout_def emit_def)

lemma cleanupFiles_fields [simp]:
  "response (cleanupFiles E ps s) = response s"
  "cleanupPaths (cleanupFiles E ps s) = cleanupPaths s" "timers (cleanupFiles E ps s) = timers s"
  "map snd (pendingUnlinks (cleanupFiles E ps s)) = map snd (pendingUnlinks s) @ ps"
  "uuids (cleanupFiles E ps s) = uuids s"
  "trace (cleanupFiles E ps s) = map EvUnlinkRequested (rev ps) @ trace s"
  by (induction ps arbitrary: s) (simp_all add: cleanupFiles_Nil cleanupFiles_Cons emit_def)

lemma files_cleanupFiles:
  "files (cleanupFiles E ps s) \<subseteq> files s" "files s - set ps \<subseteq> files (cleanupFiles E ps s)"
proof -
  show "files (cleanupFiles E ps s) \<subseteq> files s"
  proof (induction ps arbitrary: s)
    case Nil
    show ?case by (simp add: cleanupFiles_Nil)
  next
    case (Cons p ps)
    let ?s1 = "emit (EvUnlinkRequested p)
          (s\<lparr>files := (if fs_unlink E (now s) p = None \<and> unlinkedAtOnce E (now s) p
                        then files s - {p} else files s),
             pendingUnlinks := pendingUnlinks s @ [(now s, p)]\<rparr>)"
    have "files (cleanupFiles E ps ?s1) \<subseteq> files ?s1" by (rule Cons.IH)
    also have "\<dots> \<subseteq> files s" by (auto simp: emit_def)
    finally show ?case by (simp only: cleanupFiles_Cons)
  qed
  show "files s - set ps \<subseteq> files (cleanupFiles E ps s)"
  proof (induction ps arbitrary: s)
    case Nil
    show ?case by (simp add: cleanupFiles_Nil)
  next
    case (Cons p ps)
    let ?s1 = "emit (EvUnlinkRequested p)
          (s\<lparr>files := (if fs_unlink E (now s) p = None \<and> unlinkedAtOnce E (now s) p
                        then files s - {p} else files s),
             pendingUnlinks := pendingUnlinks s @ [(now s, p)]\<rparr>)"
    have "files s - set (p # ps) \<subseteq> files ?s1 - set ps" by (auto simp: emit_def)
    also have "\<dots> \<subseteq> files (cleanupFiles E ps ?s1)" by (rule Cons.IH)
    finally show ?case by (simp only: cleanupFiles_Cons)
  qed
qed

lemma finishRun_Inr:
  assumes "finishRun E req clips s = (Inr u, s')"
  shows "clips \<noteq> [] \<and> (\<exists>url. response s' = Some (Ok200 url))"
proof (cases "clips = []")
  case True
  with assms show ?thesis by (simp add: finishRun_def throw_def)
next
  case False
  with assms show ?thesis
    unfolding finishRun_def Let_def
    by (auto simp: andThen_uuidv4 ret_def respond_fields elim!: andThen_cases)
qed

lemma generatePodcast_cases:
  obtains (rejected) m where "generatePodcast E req s = respond (Err400 m) s"
      "\<not> truthyS (apiKey req) \<or> \<not> validateChirpVoice (manVoice req) \<or> \<not> validateChirpVoice (womanVoice req)"
  | (failed) m s' where "tryBlock E req s = (Inl m, s')" "generatePodcast E req s = catchBlock E m s'"
      "truthyS (apiKey req)" "validateChirpVoice (manVoice req)" "validateChirpVoice (womanVoice req)"
  | (succeeded) s' where "tryBlock E req s = (Inr (), s')" "generatePodcast E req s = s'"
      "truthyS (apiKey req)" "validateChirpVoice (manVoice req)" "validateChirpVoice (womanVoice req)"
proof (cases "truthyS (apiKey req) \<and> validateChirpVoice (manVoice req) \<and> validateChirpVoice (womanVoice req)")
  case False
  then show ?thesis
    by (cases "truthyS (apiKey req)") (auto simp: generatePodcast_def intro: rejected)
next
  case True
  obtain r s' where r: "tryBlock E req s = (r, s')" by (cases "tryBlock E req s")
  show ?thesis
  proof (cases r)
    case (Inl m)
    with r True show ?thesis by (intro failed [of m s']) (simp_all add: generatePodcast_def)
  next
    case (Inr u)
    with r True show ?thesis by (intro succeeded [of s']) (simp_all add: generatePodcast_def)
  qed
qed

lemma tryBlock_Inr:
  assumes "tryBlock E req s = (Inr u, s')"
  obtains script s1 mv wv s2 clips s3 where
    "getScript E req s = (Inr script, s1)" "resolveSources E req s1 = (Inr (mv, wv), s2)"
    "renderLines E (loopCtx req mv wv) 0 script [] s2 = (Inr clips, s3)"
    "finishRun E req clips s3 = (Inr u, s')"
  using assms by (cases rule: tryBlock_cases [of E req s]) auto

lemma success_iff:
  assumes "response (generatePodcast E req s) = Some (Ok200 url)"
  obtains "tryBlock E req s = (Inr (), generatePodcast E req s)"
    "truthyS (apiKey req)" "validateChirpVoice (manVoice req)" "validateChirpVoice (womanVoice req)"
  using assms
  by (cases rule: generatePodcast_cases [of E req s]) (auto simp: respond_fields response_catchBlock)

lemma andThen_InrE:
  assumes "andThen m f s = (Inr y, s'')"
  obtains x s' where "m s = (Inr x, s')" "f x s' = (Inr y, s'')"
  using assms by (cases rule: andThen_cases) auto








section \<open>The length of the podcast\<close>

lemma parse5: "parseFloat (codeUnits ''5'') = Num 5"
  by (simp add: parseFloat_def unsignedLiteral_def isWhiteSpace_def isDigit_def codeUnits_def
      digitsValue_def toDouble_def scale10_def exponentPart_def)

lemma parse_abc: "parseFloat (codeUnits ''abc'') = NaN"
  by (simp add: parseFloat_def unsignedLiteral_def isWhiteSpace_def isDigit_def codeUnits_def)

lemma parse_m3: "parseFloat (codeUnits ''-3'') = Num (- 3)"
  by (simp add: parseFloat_def unsignedLiteral_def isWhiteSpace_def isDigit_def negate_def
      codeUnits_def digitsValue_def toDouble_def scale10_def exponentPart_def)

lemma parse7: "parseFloat (codeUnits ''7'') = Num 7"
  by (simp add: parseFloat_def unsignedLiteral_def isWhiteSpace_def isDigit_def codeUnits_def
      digitsValue_def toDouble_def scale10_def exponentPart_def)

lemma parse_nbsp7: "parseFloat [0xA0, 0xFEFF, 0x2028, 0x3000, 0x37] = Num 7"
  by (simp add: parseFloat_def unsignedLiteral_def isWhiteSpace_def isDigit_def codeUnits_def
      digitsValue_def toDouble_def scale10_def exponentPart_def)

lemma parse_nbsp_seven: "parseFloat [0xA0, 0x37] = Num 7"
  by (simp add: parseFloat_def unsignedLiteral_def isWhiteSpace_def isDigit_def codeUnits_def
      digitsValue_def toDouble_def scale10_def exponentPart_def)

lemma parse_12_5min: "parseFloat (codeUnits '' 12.5 min'') = Num (25 / 2)"
  by (simp add: parseFloat_def unsignedLiteral_def isWhiteSpace_def isDigit_def codeUnits_def
      digitsValue_def toDouble_def scale10_def exponentPart_def)

lemma normalizeLength_effective: "normalizeLength field = effectiveLength field"
proof (cases field)
  case None
  then show ?thesis
    by (simp add: normalizeLength_def effectiveLength_def orDefault_def parse5 isFinite_def gtZero_def)
next
  case (Some s)
  then show ?thesis
    by (cases "parseFloat s")
      (simp_all add: normalizeLength_def effectiveLength_def orDefault_def isFinite_def gtZero_def)
qed

section \<open>Example runs, step by step\<close>

lemma decimal_values:
  "decimal 0 = ''0''" "decimal (Suc 0) = ''1''" "decimal 1 = ''1''" "decimal 2 = ''2''"
  "decimal 3 = ''3''" "decimal 4 = ''4''" "decimal 5 = ''5''" "decimal 6 = ''6''" "decimal 7 = ''7''"
  "decimal (Suc (Suc 0)) = ''2''"
  by (simp_all add: decimal.simps digitChar_def)

lemma audioPathOf_values:
  "audioPathOf u 0 = (WORK_DIR, u @ ''_line_1.mp3'')" "audioPathOf u (Suc 0) = (WORK_DIR, u @ ''_line_2.mp3'')"
  by (simp_all add: audioPathOf_def sanitizeFileName_def decimal_values)

lemma clipPathOf_values:
  "clipPathOf u 0 = (WORK_DIR, u @ ''_clip_1.mp4'')" "clipPathOf u (Suc 0) = (WORK_DIR, u @ ''_clip_2.mp4'')"
  by (simp_all add: clipPathOf_def decimal_values)

lemma speaker_values:
  "includes_str (toLowerCase ''Woman'') ''woman''" "\<not> includes_str (toLowerCase ''Man'') ''woman''"
  by (simp_all add: toLowerCase_def toLowerChar_def)

lemmas eval_defs =
  andThen_def ret_def throw_def emit_def now_def uuidv4_def register_def respond_def
  truthyS_def orDefault_def uploadPath_def Let_def tempUploads_def decimal_values

lemma req0_valid:
  "truthyS (apiKey req0)" "validateChirpVoice (manVoice req0)" "validateChirpVoice (womanVoice req0)"
  by (simp_all add: req0_def truthyS_def validateChirpVoice_def)

lemma getScript_down:
  "getScript envGeminiDown req0 (initState req0) =
    (Inl ''Request failed with status code 503'',
     \<lparr>files = {(UPLOAD_DIR, ''upload1'')}, cleanupPaths = [],
      trace = [EvGemini ''key'' [Intro (Num 5), PlainTopic ''tea'',
                 InlineData ''application/octet-stream'' ''AAAA''],
               EvReadFile (UPLOAD_DIR, ''upload1'')],
      uuids = 0, pendingUnlinks = [], timers = [], response = None\<rparr>)"
  by (simp add: getScript_def prepareTopicParts_def youtubePart_def filePart_def callGemini_def
      topicTextPart_def envGeminiDown_def env0_def req0_def initState_def eval_defs
      normalizeLength_effective effectiveLength_def parse_abc)

lemma run_down:
  "run envGeminiDown req0 =
     \<lparr>files = {(UPLOAD_DIR, ''upload1'')}, cleanupPaths = [],
      trace = [EvRespond (Err500 ''Request failed with status code 503''),
               EvGemini ''key'' [Intro (Num 5), PlainTopic ''tea'',
                 InlineData ''application/octet-stream'' ''AAAA''],
               EvReadFile (UPLOAD_DIR, ''upload1'')],
      uuids = 0, pendingUnlinks = [], timers = [],
      response = Some (Err500 ''Request failed with status code 503'')\<rparr>"
  by (simp add: run_def generatePodcast_def req0_valid tryBlock_def
      andThen_Inl [where m = "getScript envGeminiDown req0", OF getScript_down]
      catchBlock_def cleanupFiles_def respond_def emit_def)

lemma getScript_one:
  assumes "gemini_post E = gemini_post env0" "JSON_parse E = (\<lambda>t. Some (JArray scriptOne))"
    "readFile E = readFile env0" "mime_lookup E = mime_lookup env0"
  shows "getScript E req0 (initState req0) =
    (Inr scriptOne,
     \<lparr>files = {(UPLOAD_DIR, ''upload1'')}, cleanupPaths = [],
      trace = [EvGemini ''key'' [Intro (Num 5), PlainTopic ''tea'',
                 InlineData ''application/octet-stream'' ''AAAA''],
               EvReadFile (UPLOAD_DIR, ''upload1'')],
      uuids = 0, pendingUnlinks = [], timers = [], response = None\<rparr>)"
  by (simp add: getScript_def prepareTopicParts_def youtubePart_def filePart_def callGemini_def
      topicTextPart_def assms env0_def req0_def initState_def eval_defs
      normalizeLength_effective effectiveLength_def parse_abc)

lemma resolveSources_default:
  assumes "axios_get E = axios_get env0" "uuid E = uuid env0"
    "DEFAULT_MAN_VIDEO_URL E = DEFAULT_MAN_VIDEO_URL env0"
    "DEFAULT_WOMAN_VIDEO_URL E = DEFAULT_WOMAN_VIDEO_URL env0"
  shows "resolveSources E req0
     \<lparr>files = F, cleanupPaths = [], trace = T, uuids = 0, pendingUnlinks = [], timers = [],
      response = None\<rparr> =
    (Inr ((WORK_DIR, ''man_u0.mp4''), (WORK_DIR, ''woman_u1.mp4'')),
     \<lparr>files = insert (WORK_DIR, ''woman_u1.mp4'') (insert (WORK_DIR, ''man_u0.mp4'') F),
      cleanupPaths = [(WORK_DIR, ''man_u0.mp4''), (WORK_DIR, ''woman_u1.mp4'')],
      trace = EvRegister (WORK_DIR, ''woman_u1.mp4'') # EvRegister (WORK_DIR, ''man_u0.mp4'')
            # EvDownload ''https://YOUR_DEFAULT_MAN_VIDEO_URL/woman-default.mp4'' (WORK_DIR, ''woman_u1.mp4'')
            # EvDownload ''https://YOUR_DEFAULT_MAN_VIDEO_URL/man-default.mp4'' (WORK_DIR, ''man_u0.mp4'') # T,
      uuids = 2, pendingUnlinks = [], timers = [], response = None\<rparr>)"
  by (simp add: resolveSources_def resolveVideoSource_def downloadFile_def registerDownloads_def
      assms env0_def req0_def eval_defs numeral_2_eq_2)

lemma renderLines_negative:
  "renderLines envNegative (loopCtx req0 (WORK_DIR, ''man_u0.mp4'') (WORK_DIR, ''woman_u1.mp4'')) 0
     scriptOne []
     \<lparr>files = F, cleanupPaths = CP, trace = T, uuids = 2, pendingUnlinks = [], timers = [],
      response = None\<rparr> =
   (Inl ''ffmpeg exited with code 1'',
    \<lparr>files = insert (WORK_DIR, ''u2_line_1.mp3'') F,
     cleanupPaths = CP @ [(WORK_DIR, ''u2_line_1.mp3''), (WORK_DIR, ''u3_clip_1.mp4'')],
     trace = EvLoop (WORK_DIR, ''woman_u1.mp4'') (WORK_DIR, ''u2_line_1.mp3'') (JNumber (Num (- 1)))
               (WORK_DIR, ''u3_clip_1.mp4'')
           # EvProbe (WORK_DIR, ''u2_line_1.mp3'')
           # EvWriteAudio (WORK_DIR, ''u2_line_1.mp3'')
           # EvSynthesize (JString ''Hello'') ''en-US'' ''en-US-chirp-woman'' (WORK_DIR, ''u2_line_1.mp3'')
           # EvRegister (WORK_DIR, ''u3_clip_1.mp4'')
           # EvRegister (WORK_DIR, ''u2_line_1.mp3'') # T,
     uuids = 4, pendingUnlinks = [], timers = [], response = None\<rparr>)"
  by (simp add: scriptOne_def wellFormed_def renderLine_def renderBody_def loopCtx_def
      audioPathOf_values clipPathOf_values speaker_values
      synthesizeSpeech_def getMediaDuration_def loopVideoWithAudio_def
      envNegative_def env0_def req0_def eval_defs)

lemma run_failed:
  assumes "truthyS (apiKey req)" "validateChirpVoice (manVoice req)" "validateChirpVoice (womanVoice req)"
    and "tryBlock E req (initState req) = (Inl m, s)"
  shows "run E req = catchBlock E m s"
  using assms by (simp add: run_def generatePodcast_def)

lemma run_succeeded:
  assumes "truthyS (apiKey req)" "validateChirpVoice (manVoice req)" "validateChirpVoice (womanVoice req)"
    and "tryBlock E req (initState req) = (Inr u, s)"
  shows "run E req = s"
  using assms by (simp add: run_def generatePodcast_def)

lemma tryBlock_render_fails:
  assumes "getScript E req s = (Inr script, s1)" "resolveSources E req s1 = (Inr (mv, wv), s2)"
    and "renderLines E (loopCtx req mv wv) 0 script [] s2 = (Inl m, s3)"
  shows "tryBlock E req s = (Inl m, s3)"
  using assms by (simp add: tryBlock_def andThen_def)

lemma tryBlock_rendered:
  assumes "getScript E req s = (Inr script, s1)" "resolveSources E req s1 = (Inr (mv, wv), s2)"
    and "renderLines E (loopCtx req mv wv) 0 script [] s2 = (Inr clips, s3)"
  shows "tryBlock E req s = finishRun E req clips s3"
  using assms by (simp add: tryBlock_def andThen_def)

lemma run_negative:
  "run envNegative req0 =
    \<lparr>files = {(UPLOAD_DIR, ''upload1'')},
     cleanupPaths = [(WORK_DIR, ''man_u0.mp4''), (WORK_DIR, ''woman_u1.mp4''),
                     (WORK_DIR, ''u2_line_1.mp3''), (WORK_DIR, ''u3_clip_1.mp4'')],
     trace = [EvRespond (Err500 ''ffmpeg exited with code 1''),
              EvUnlinkRequested (WORK_DIR, ''u3_clip_1.mp4''),
              EvUnlinkRequested (WORK_DIR, ''u2_line_1.mp3''),
              EvUnlinkRequested (WORK_DIR, ''woman_u1.mp4''),
              EvUnlinkRequested (WORK_DIR, ''man_u0.mp4''),
              EvLoop (WORK_DIR, ''woman_u1.mp4'') (WORK_DIR, ''u2_line_1.mp3'') (JNumber (Num (- 1)))
                (WORK_DIR, ''u3_clip_1.mp4''),
              EvProbe (WORK_DIR, ''u2_line_1.mp3''),
              EvWriteAudio (WORK_DIR, ''u2_line_1.mp3''),
              EvSynthesize (JString ''Hello'') ''en-US'' ''en-US-chirp-woman'' (WORK_DIR, ''u2_line_1.mp3''),
              EvRegister (WORK_DIR, ''u3_clip_1.mp4''),
              EvRegister (WORK_DIR, ''u2_line_1.mp3''),
              EvRegister (WORK_DIR, ''woman_u1.mp4''),
              EvRegister (WORK_DIR, ''man_u0.mp4''),
              EvDownload ''https://YOUR_DEFAULT_MAN_VIDEO_URL/woman-default.mp4'' (WORK_DIR, ''woman_u1.mp4''),
              EvDownload ''https://YOUR_DEFAULT_MAN_VIDEO_URL/man-default.mp4'' (WORK_DIR, ''man_u0.mp4''),
              EvGemini ''key'' [Intro (Num 5), PlainTopic ''tea'',
                InlineData ''application/octet-stream'' ''AAAA''],
              EvReadFile (UPLOAD_DIR, ''upload1'')],
     uuids = 4,
     pendingUnlinks = [(12, WORK_DIR, ''man_u0.mp4''), (13, WORK_DIR, ''woman_u1.mp4''),
                       (14, WORK_DIR, ''u2_line_1.mp3''), (15, WORK_DIR, ''u3_clip_1.mp4'')],
     timers = [],
     response = Some (Err500 ''ffmpeg exited with code 1'')\<rparr>"
proof -
  have gs: "getScript envNegative req0 (initState req0) = (Inr scriptOne,
     \<lparr>files = {(UPLOAD_DIR, ''upload1'')}, cleanupPaths = [],
      trace = [EvGemini ''key'' [Intro (Num 5), PlainTopic ''tea'',
                 InlineData ''application/octet-stream'' ''AAAA''],
               EvReadFile (UPLOAD_DIR, ''upload1'')],
      uuids = 0, pendingUnlinks = [], timers = [], response = None\<rparr>)"
    by (rule getScript_one) (simp_all add: envNegative_def)
  note rs = resolveSources_default [of envNegative, simplified envNegative_def, simplified,
      folded envNegative_def]
  have fs: "fs_unlink envNegative = (\<lambda>t p. None)" "unlinkedAtOnce envNegative = (\<lambda>t p. True)"
    by (simp_all add: envNegative_def env0_def)
  show ?thesis
    by (simp add: run_failed [OF req0_valid
          tryBlock_render_fails [OF gs rs renderLines_negative]]
        catchBlock_def cleanupFiles_def respond_def emit_def now_def Let_def fs insert_Diff_if)
qed






lemma run_down_seven:
  "trace (run envGeminiDown reqSeven) =
     [EvRespond (Err500 ''Request failed with status code 503''),
      EvGemini ''key'' [Intro (Num 7), PlainTopic ''tea'',
        InlineData ''application/octet-stream'' ''AAAA''],
      EvReadFile (UPLOAD_DIR, ''upload1'')]"
proof -
  have valid: "truthyS (apiKey reqSeven)" "validateChirpVoice (manVoice reqSeven)"
    "validateChirpVoice (womanVoice reqSeven)"
    by (simp_all add: reqSeven_def req0_def truthyS_def validateChirpVoice_def)
  have len: "normalizeLength (podcastLength reqSeven) = Num 7"
    by (simp add: reqSeven_def req0_def normalizeLength_def orDefault_def parse_nbsp_seven
        isFinite_def gtZero_def)
  have gs: "getScript envGeminiDown reqSeven (initState reqSeven) =
    (Inl ''Request failed with status code 503'',
     \<lparr>files = {(UPLOAD_DIR, ''upload1'')}, cleanupPaths = [],
      trace = [EvGemini ''key'' [Intro (Num 7), PlainTopic ''tea'',
                 InlineData ''application/octet-stream'' ''AAAA''],
               EvReadFile (UPLOAD_DIR, ''upload1'')],
      uuids = 0, pendingUnlinks = [], timers = [], response = None\<rparr>)"
    unfolding getScript_def Let_def len
    by (simp add: prepareTopicParts_def youtubePart_def filePart_def callGemini_def
        topicTextPart_def envGeminiDown_def env0_def reqSeven_def req0_def initState_def eval_defs)
  show ?thesis
    by (simp add: run_def generatePodcast_def valid tryBlock_def
        andThen_Inl [where m = "getScript envGeminiDown reqSeven", OF gs]
        catchBlock_def cleanupFiles_def respond_def emit_def)
qed

text \<open>
  C8. The length the handler uses is the parsed value of the field when that is a
  finite positive number and 5 otherwise: for a missing field, for \<open>abc\<close> and for \<open>-3\<close>
  it is 5, for \<open>7\<close> it is 7, also after white space such as a no-break space, and for
  \<open>12.5 min\<close> it is 12.5. Every prompt sent to the text-generation backend starts with
  the instruction that embeds this length.
\<close>

theorem prompt_embeds_effective_length:
  "normalizeLength field = effectiveLength field
   \<and> normalizeLength None = Num 5
   \<and> normalizeLength (Some (codeUnits ''abc'')) = Num 5
   \<and> normalizeLength (Some (codeUnits ''-3'')) = Num 5
   \<and> normalizeLength (Some (codeUnits ''7'')) = Num 7
   \<and> normalizeLength (Some [0xA0, 0xFEFF, 0x2028, 0x3000, 0x37]) = Num 7
   \<and> normalizeLength (Some (codeUnits '' 12.5 min'')) = Num (25 / 2)
   \<and> list_all (\<lambda>e. case e of
                 EvGemini key parts \<Rightarrow> (\<exists>rest. parts = Intro (effectiveLength (podcastLength req)) # rest)
               | _ \<Rightarrow> True) (trace (run E req))"
proof (intro conjI)
  show "normalizeLength field = effectiveLength field"
    by (rule normalizeLength_effective)
  show "normalizeLength None = Num 5"
    by (simp add: normalizeLength_effective effectiveLength_def)
  show "normalizeLength (Some (codeUnits ''abc'')) = Num 5"
    by (simp add: normalizeLength_effective effectiveLength_def parse_abc)
  show "normalizeLength (Some (codeUnits ''-3'')) = Num 5"
    by (simp add: normalizeLength_effective effectiveLength_def parse_m3)
  show "normalizeLength (Some (codeUnits ''7'')) = Num 7"
    by (simp add: normalizeLength_effective effectiveLength_def parse7)
  show "normalizeLength (Some [0xA0, 0xFEFF, 0x2028, 0x3000, 0x37]) = Num 7"
    by (simp add: normalizeLength_effective effectiveLength_def parse_nbsp7)
  show "normalizeLength (Some (codeUnits '' 12.5 min'')) = Num (25 / 2)"
    by (simp add: normalizeLength_effective effectiveLength_def parse_12_5min)
  have all: "list_all (runEvent E req) (trace (run E req))"
    by (rule trace_run)
  show "list_all (\<lambda>e. case e of
                 EvGemini key parts \<Rightarrow> (\<exists>rest. parts = Intro (effectiveLength (podcastLength req)) # rest)
               | _ \<Rightarrow> True) (trace (run E req))"
    by (rule list.pred_mono_strong [OF all])
      (auto simp: runEvent_def normalizeLength_effective split: event.splits)
qed

theorem prompt_embeds_effective_length_witness:
  "podcastLength reqSeven = Some [0xA0, 0x37]
   \<and> effectiveLength (podcastLength reqSeven) = Num 7
   \<and> trace (run envGeminiDown reqSeven) =
       [EvRespond (Err500 ''Request failed with status code 503''),
        EvGemini ''key'' [Intro (Num 7), PlainTopic ''tea'',
          InlineData ''application/octet-stream'' ''AAAA''],
        EvReadFile (UPLOAD_DIR, ''upload1'')]
   \<and> podcastLength req0 = Some (codeUnits ''abc'')
   \<and> effectiveLength (podcastLength req0) = Num 5
   \<and> trace (run envGeminiDown req0) =
       [EvRespond (Err500 ''Request failed with status code 503''),
        EvGemini ''key'' [Intro (Num 5), PlainTopic ''tea'',
          InlineData ''application/octet-stream'' ''AAAA''],
        EvReadFile (UPLOAD_DIR, ''upload1'')]"
proof (intro conjI)
  show seven: "podcastLength reqSeven = Some [0xA0, 0x37]"
    by (simp add: reqSeven_def req0_def)
  have "normalizeLength (podcastLength reqSeven) = Num 7"
    by (simp add: reqSeven_def req0_def normalizeLength_def orDefault_def parse_nbsp_seven
        isFinite_def gtZero_def)
  moreover note prompt_embeds_effective_length [of "podcastLength reqSeven" reqSeven envGeminiDown,
      THEN conjunct1]
  ultimately show "effectiveLength (podcastLength reqSeven) = Num 7"
    by simp
  show "trace (run envGeminiDown reqSeven) =
       [EvRespond (Err500 ''Request failed with status code 503''),
        EvGemini ''key'' [Intro (Num 7), PlainTopic ''tea'',
          InlineData ''application/octet-stream'' ''AAAA''],
        EvReadFile (UPLOAD_DIR, ''upload1'')]"
    by (rule run_down_seven)
  show field: "podcastLength req0 = Some (codeUnits ''abc'')"
    by (simp add: req0_def)
  note inst = prompt_embeds_effective_length [of "Some (codeUnits ''abc'')" req0 envGeminiDown]
  from inst have "effectiveLength (Some (codeUnits ''abc'')) = Num 5"
    by (elim conjE) (erule subst)
  then show "effectiveLength (podcastLength req0) = Num 5"
    by (simp only: field)
  show "trace (run envGeminiDown req0) =
       [EvRespond (Err500 ''Request failed with status code 503''),
        EvGemini ''key'' [Intro (Num 5), PlainTopic ''tea'',
          InlineData ''application/octet-stream'' ''AAAA''],
        EvReadFile (UPLOAD_DIR, ''upload1'')]"
    by (simp add: run_down)
qed

section \<open>Speaker routing\<close>





section \<open>What the steps leave alone\<close>

lemma quiet_refl: "quiet s s"
  by (simp add: quiet_def)

lemma quiet_trans: "quiet s s1 \<Longrightarrow> quiet s1 s2 \<Longrightarrow> quiet s s2"
  by (simp add: quiet_def)

lemma quietly_ret: "quietly (ret x)"
  by (simp add: quietly_def ret_def quiet_refl)

lemma quietly_throw: "quietly (throw e)"
  by (simp add: quietly_def throw_def quiet_refl)

lemma quietly_andThen: "quietly m \<Longrightarrow> (\<And>x. quietly (f x)) \<Longrightarrow> quietly (andThen m f)"
  unfolding quietly_def andThen_def
proof
  fix s
  assume m: "\<forall>s. quiet s (snd (m s))" and f: "\<And>x. \<forall>s. quiet s (snd (f x s))"
  obtain r s1 where ms: "m s = (r, s1)" by (cases "m s")
  have e1: "quiet s s1" using m ms by (metis snd_conv)
  show "quiet s (snd (case m s of (Inl e, s') \<Rightarrow> (Inl e, s') | (Inr x, s') \<Rightarrow> f x s'))"
  proof (cases r)
    case (Inl e)
    then show ?thesis using ms e1 by simp
  next
    case (Inr x)
    then show ?thesis using ms e1 f [of x] by (auto intro: quiet_trans)
  qed
qed

lemma quietly_uuidv4: "quietly (uuidv4 E)"
  by (simp add: quietly_def uuidv4_def quiet_def)

lemma quietly_prepareTopicParts: "quietly (prepareTopicParts E a b c d)"
  unfolding prepareTopicParts_def Let_def
proof (intro quietly_andThen quietly_ret)
  show "quietly (youtubePart E b)"
    by (simp add: quietly_def quiet_def youtubePart_def extractYouTubeTranscript_def ret_def emit_def
        Let_def split: option.splits)
  show "quietly (filePart E c)"
    by (simp add: quietly_def quiet_def filePart_def ret_def throw_def emit_def Let_def
        split: option.splits sum.splits)
qed

lemma quietly_callGemini: "quietly (callGemini E key parts)"
  by (simp add: quietly_def quiet_def callGemini_def ret_def throw_def emit_def Let_def
      split: gemini_reply.splits option.splits jsval.splits)

lemma quietly_getScript: "quietly (getScript E req)"
  unfolding getScript_def Let_def
  by (intro quietly_andThen quietly_prepareTopicParts quietly_callGemini)

lemma quietly_resolveVideoSource: "quietly (resolveVideoSource E opt up key sp)"
proof -
  have "quietly (downloadFile E url p)" for url p
    by (simp add: quietly_def quiet_def downloadFile_def ret_def throw_def emit_def Let_def
        split: option.splits)
  then show ?thesis
    unfolding resolveVideoSource_def Let_def
    by (cases up) (simp_all add: quietly_andThen quietly_uuidv4 quietly_ret quietly_throw)
qed

lemma quiet_register: "quiet s (register p s)"
  by (simp add: quiet_def)

lemma quiet_registerDownloads: "quiet s (registerDownloads mv mu wv wu s)"
  by (simp add: quiet_def registerDownloads_def Let_def)

lemma quietly_resolveSources: "quietly (resolveSources E req)"
  unfolding resolveSources_def
  by (intro quietly_andThen quietly_resolveVideoSource)
    (simp add: quietly_def ret_def quiet_registerDownloads)

lemma quietly_renderBody: "quietly (renderBody E C line a c)"
proof (cases "getProp line ''speaker''")
  case (JString speaker)
  have syn: "quietly (synthesizeSpeech E k t l v p)" for k t l v p
    by (simp add: quietly_def quiet_def synthesizeSpeech_def ret_def throw_def emit_def Let_def
        split: tts_reply.splits option.splits)
  have probe: "quietly (getMediaDuration E p)" for p
    by (simp add: quietly_def quiet_def getMediaDuration_def ret_def throw_def emit_def
        split: sum.splits)
  have loop: "quietly (loopVideoWithAudio E v a d c)" for v d
    by (simp add: quietly_def quiet_def loopVideoWithAudio_def ret_def throw_def emit_def Let_def
        split: jsval.splits option.splits)
  have tail: "quietly (if \<not> truthy d \<or> d = JNumber NaN
                      then throw ''Unable to determine audio duration.''
                      else andThen (loopVideoWithAudio E v a d c) (\<lambda>_. ret c))" for d v
    by (simp add: quietly_throw quietly_andThen loop quietly_ret)
  show ?thesis
    unfolding renderBody_def JString jsval.case Let_def
    by (intro quietly_andThen syn probe tail)
qed (simp_all add: renderBody_def quietly_throw)

lemma quietly_renderLine: "quietly (renderLine E C i line)"
proof -
  have "quietly (\<lambda>s. renderBody E C line a c (register c (register a s)))" for a c
    using quietly_renderBody [of E C line a c]
    by (auto simp: quietly_def quiet_def)
  then show ?thesis
    unfolding renderLine_def Let_def
    by (intro quietly_andThen quietly_uuidv4)
qed

lemma quietly_renderLines: "quietly (renderLines E C i script acc)"
proof (induction script arbitrary: i acc)
  case Nil
  show ?case by (simp add: quietly_def quiet_refl)
next
  case (Cons line rest)
  show ?case
    unfolding quietly_def
  proof
    fix s
    show "quiet s (snd (renderLines E C i (line # rest) acc s))"
    proof (cases "wellFormed line")
      case False
      then show ?thesis using Cons.IH [of "i + 1" acc] by (simp add: quietly_def)
    next
      case True
      obtain r s1 where r: "renderLine E C i line s = (r, s1)" by (cases "renderLine E C i line s")
      then have e1: "quiet s s1" using quietly_renderLine [of E C i line] by (metis quietly_def snd_conv)
      show ?thesis
      proof (cases r)
        case (Inl m)
        with True r e1 show ?thesis by simp
      next
        case (Inr clip)
        have "quiet s1 (snd (renderLines E C (i + 1) rest (acc @ [clip]) s1))"
          using Cons.IH [of "i + 1" "acc @ [clip]"] by (simp add: quietly_def)
        with True r Inr e1 show ?thesis by (auto intro: quiet_trans)
      qed
    qed
  qed
qed

lemma quietly_concatenateClips: "quietly (concatenateClips E clips out)"
  by (simp add: quietly_def quiet_def concatenateClips_def andThen_uuidv4 Let_def ret_def throw_def
      emit_def split: option.splits)

lemma finishRun_Inl:
  assumes "finishRun E req clips s = (Inl m, s')"
  shows "(clips = [] \<and> s' = s)
       \<or> (clips \<noteq> [] \<and> (\<exists>out. concatenateClips E clips (OUTPUT_DIR, out) (s\<lparr>uuids := Suc (uuids s)\<rparr>) = (Inl m, s')))"
proof (cases "clips = []")
  case True
  with assms show ?thesis by (simp add: finishRun_def throw_def)
next
  case False
  with assms show ?thesis
    unfolding finishRun_def Let_def
    by (auto simp: andThen_uuidv4 ret_def elim!: andThen_cases)
qed

lemma tryBlock_Inl_quiet:
  assumes "tryBlock E req s = (Inl m, s')"
  shows "quiet s s'"
proof (cases rule: tryBlock_cases [of E req s])
  case (script_fails m1 s1)
  with assms quietly_getScript [of E req] show ?thesis
    by (metis quietly_def snd_conv)
next
  case (resolve_fails script s1 m1 s2)
  have "quiet s s1" using resolve_fails(1) quietly_getScript [of E req] by (metis quietly_def snd_conv)
  moreover have "quiet s1 s2"
    using resolve_fails(2) quietly_resolveSources [of E req] by (metis quietly_def snd_conv)
  ultimately show ?thesis using resolve_fails(3) assms by (auto intro: quiet_trans)
next
  case (render_fails script s1 mv wv s2 m1 s3)
  have "quiet s s1" using render_fails(1) quietly_getScript [of E req] by (metis quietly_def snd_conv)
  moreover have "quiet s1 s2"
    using render_fails(2) quietly_resolveSources [of E req] by (metis quietly_def snd_conv)
  moreover have "quiet s2 s3"
    using render_fails(3) quietly_renderLines [of E "loopCtx req mv wv" 0 script "[]"]
    by (metis quietly_def snd_conv)
  ultimately show ?thesis using render_fails(4) assms by (auto intro: quiet_trans)
next
  case (rendered script s1 mv wv s2 clips s3)
  have "quiet s s1" using rendered(1) quietly_getScript [of E req] by (metis quietly_def snd_conv)
  moreover have "quiet s1 s2"
    using rendered(2) quietly_resolveSources [of E req] by (metis quietly_def snd_conv)
  moreover have "quiet s2 s3"
    using rendered(3) quietly_renderLines [of E "loopCtx req mv wv" 0 script "[]"]
    by (metis quietly_def snd_conv)
  moreover have "quiet s3 s'"
  proof -
    from rendered(4) assms have "finishRun E req clips s3 = (Inl m, s')" by simp
    from finishRun_Inl [OF this] show ?thesis
    proof
      assume "clips = [] \<and> s' = s3"
      then show ?thesis by (simp add: quiet_refl)
    next
      assume "clips \<noteq> [] \<and> (\<exists>out. concatenateClips E clips (OUTPUT_DIR, out) (s3\<lparr>uuids := Suc (uuids s3)\<rparr>) = (Inl m, s'))"
      then obtain out where "concatenateClips E clips (OUTPUT_DIR, out) (s3\<lparr>uuids := Suc (uuids s3)\<rparr>) = (Inl m, s')"
        by blast
      with quietly_concatenateClips [of E clips "(OUTPUT_DIR, out)"]
      have "quiet (s3\<lparr>uuids := Suc (uuids s3)\<rparr>) s'" by (metis quietly_def snd_conv)
      then show ?thesis by (simp add: quiet_def)
    qed
  qed
  ultimately show ?thesis by (blast intro: quiet_trans)
qed

section \<open>Cleanup after a failed run\<close>

text \<open>
  C6 does not hold of the code. The uploads are pushed onto the cleanup list only on
  the success path (lines 387 and 388), after the response; the \<open>catch\<close> block cleans
  the list as it stands. A request with an uploaded topic file whose run fails keeps the
  upload on disk for good.
\<close>

theorem upload_survives_failed_run:
  "topicFile req0 = Some ''upload1''
   \<and> response (run envGeminiDown req0) = Some (Err500 ''Request failed with status code 503'')
   \<and> (UPLOAD_DIR, ''upload1'') \<in> files (run envGeminiDown req0)
   \<and> pendingUnlinks (run envGeminiDown req0) = []
   \<and> timers (run envGeminiDown req0) = []
   \<and> (UPLOAD_DIR, ''upload1'') \<in> files (afterRetention envGeminiDown (run envGeminiDown req0))"
  by (simp add: run_down afterRetention_def settle_def fireTimers_def) (simp add: req0_def)

text \<open>
  C5 as stated fails: the handler calls \<open>cleanupFiles\<close> without awaiting it and sends
  the 500 response at once. When the response is sent, the promise of each of the four
  unlinks it has requested is still pending: the deletion has not completed in the
  handler's control flow.
\<close>

theorem response_sent_before_deletion_completes:
  "response (run envNegative req0) = Some (Err500 ''ffmpeg exited with code 1'')
   \<and> map snd (pendingUnlinks (run envNegative req0)) =
        [(WORK_DIR, ''man_u0.mp4''), (WORK_DIR, ''woman_u1.mp4''),
         (WORK_DIR, ''u2_line_1.mp3''), (WORK_DIR, ''u3_clip_1.mp4'')]
   \<and> take 5 (trace (run envNegative req0)) =
        [EvRespond (Err500 ''ffmpeg exited with code 1''),
         EvUnlinkRequested (WORK_DIR, ''u3_clip_1.mp4''),
         EvUnlinkRequested (WORK_DIR, ''u2_line_1.mp3''),
         EvUnlinkRequested (WORK_DIR, ''woman_u1.mp4''),
         EvUnlinkRequested (WORK_DIR, ''man_u0.mp4'')]"
  by (simp add: run_negative)

lemma tryBlock_Inl_ext:
  assumes fails: "tryBlock E req s = (Inl m, s')"
    and "\<And>url. P (EvTranscript url)" "\<And>p. P (EvReadFile p)"
    and "\<And>key parts. P (EvGemini key parts)"
    and "\<And>url p. P (EvDownload url p)"
    and "\<And>p. P (EvRegister p)"
    and "\<And>t l v a. P (EvSynthesize t l v a)" "\<And>a. P (EvWriteAudio a)" "\<And>a. P (EvProbe a)"
    and "\<And>v a d c. P (EvLoop v a d c)"
    and "\<And>p. P (EvWriteManifest p)" "\<And>p clips out. P (EvConcat p clips out)" "\<And>p. P (EvUnlink p)"
  shows "ext P s s'"
proof -
  have gs: "adds P (getScript E req)"
    by (rule adds_getScript) (rule assms)+
  have rs: "adds P (resolveSources E req)"
    by (rule adds_resolveSources) (rule assms)+
  have rl: "adds P (renderLines E C 0 script [])" for C script
    by (rule adds_renderLines) (rule assms)+
  have cc: "adds P (concatenateClips E clips out)" for clips out
    by (rule adds_concatenateClips) (rule assms)+
  show ?thesis
  proof (cases rule: tryBlock_cases [of E req s])
    case (script_fails m1 s1)
    with fails gs show ?thesis by (metis adds_def snd_conv)
  next
    case (resolve_fails script s1 m1 s2)
    have "ext P s s1" using resolve_fails(1) gs by (metis adds_def snd_conv)
    moreover have "ext P s1 s2" using resolve_fails(2) rs by (metis adds_def snd_conv)
    ultimately show ?thesis using resolve_fails(3) fails by (auto intro: ext_trans)
  next
    case (render_fails script s1 mv wv s2 m1 s3)
    have "ext P s s1" using render_fails(1) gs by (metis adds_def snd_conv)
    moreover have "ext P s1 s2" using render_fails(2) rs by (metis adds_def snd_conv)
    moreover have "ext P s2 s3" using render_fails(3) rl by (metis adds_def snd_conv)
    ultimately show ?thesis using render_fails(4) fails by (auto intro: ext_trans)
  next
    case (rendered script s1 mv wv s2 clips s3)
    have "ext P s s1" using rendered(1) gs by (metis adds_def snd_conv)
    moreover have "ext P s1 s2" using rendered(2) rs by (metis adds_def snd_conv)
    moreover have "ext P s2 s3" using rendered(3) rl by (metis adds_def snd_conv)
    moreover have "ext P s3 s'"
    proof -
      from rendered(4) fails have "finishRun E req clips s3 = (Inl m, s')" by simp
      from finishRun_Inl [OF this] show ?thesis
      proof
        assume "clips = [] \<and> s' = s3"
        then show ?thesis by (simp add: ext_refl)
      next
        assume "clips \<noteq> [] \<and> (\<exists>out. concatenateClips E clips (OUTPUT_DIR, out) (s3\<lparr>uuids := Suc (uuids s3)\<rparr>) = (Inl m, s'))"
        then obtain out where "concatenateClips E clips (OUTPUT_DIR, out) (s3\<lparr>uuids := Suc (uuids s3)\<rparr>) = (Inl m, s')"
          by blast
        with cc [of clips "(OUTPUT_DIR, out)"]
        have "ext P (s3\<lparr>uuids := Suc (uuids s3)\<rparr>) s'" by (metis adds_def snd_conv)
        then show ?thesis by (simp add: ext_def)
      qed
    qed
    ultimately show ?thesis by (blast intro: ext_trans)
  qed
qed

text \<open>
  C5, as the code has it. When a run fails after validation, the handler requests the
  unlink of every registered artifact, in the order of registration, and then sends the
  500 response without awaiting them: at the response the promise of each of these
  unlinks is pending. Once they have settled, every registered artifact whose unlink did
  not fail is off the disk. The 500 response is the only response of the run, and no
  timer is set.
\<close>

theorem failed_run_requests_cleanup_then_responds:
  "response (run E req) = Some (Err500 m) \<longrightarrow>
     map snd (pendingUnlinks (run E req)) = cleanupPaths (run E req)
     \<and> timers (run E req) = []
     \<and> (\<exists>t. trace (run E req)
               = EvRespond (Err500 m) # map EvUnlinkRequested (rev (cleanupPaths (run E req))) @ t
            \<and> list_all (\<lambda>e. case e of
                  EvRespond r \<Rightarrow> False | EvUnlinkRequested p \<Rightarrow> False
                | EvSetTimeout d ps \<Rightarrow> False | _ \<Rightarrow> True) t)
     \<and> pendingUnlinks (settle E (run E req)) = []
     \<and> (\<forall>(t, p) \<in> set (pendingUnlinks (run E req)).
           fs_unlink E t p = None \<longrightarrow> p \<notin> files (settle E (run E req)))"
proof
  let ?P = "\<lambda>e. case e of EvRespond r \<Rightarrow> False | EvUnlinkRequested p \<Rightarrow> False
                | EvSetTimeout d ps \<Rightarrow> False | _ \<Rightarrow> True"
  assume r: "response (run E req) = Some (Err500 m)"
  have after: "pendingUnlinks (settle E (run E req)) = []
     \<and> (\<forall>(t, p) \<in> set (pendingUnlinks (run E req)).
           fs_unlink E t p = None \<longrightarrow> p \<notin> files (settle E (run E req)))"
    by (force simp: settle_def)
  have before: "map snd (pendingUnlinks (run E req)) = cleanupPaths (run E req)
     \<and> timers (run E req) = []
     \<and> (\<exists>t. trace (run E req)
               = EvRespond (Err500 m) # map EvUnlinkRequested (rev (cleanupPaths (run E req))) @ t
            \<and> list_all ?P t)"
  proof (cases rule: generatePodcast_cases [of E req "initState req"])
    case (rejected m')
    with r show ?thesis by (simp add: run_def respond_fields)
  next
    case (succeeded s')
    from tryBlock_Inr [OF succeeded(1)] obtain clips s3 where "finishRun E req clips s3 = (Inr (), s')"
      by metis
    from finishRun_Inr [OF this] succeeded(2) r show ?thesis by (auto simp: run_def)
  next
    case (failed msg s')
    have q: "quiet (initState req) s'"
      by (rule tryBlock_Inl_quiet [OF failed(1)])
    have "ext ?P (initState req) s'"
      by (rule tryBlock_Inl_ext [OF failed(1)]) simp_all
    then have t: "list_all ?P (trace s')"
      by (simp add: ext_def initState_def)
    have run: "run E req = catchBlock E msg s'"
      using failed(2) by (simp add: run_def)
    have m: "Err500 m = Err500 (if msg = [] then ''Failed to generate podcast.'' else msg)"
      using r by (simp add: run response_catchBlock)
    have fields: "map snd (pendingUnlinks (catchBlock E msg s')) = map snd (pendingUnlinks s') @ cleanupPaths s'"
      "timers (catchBlock E msg s') = timers s'" "cleanupPaths (catchBlock E msg s') = cleanupPaths s'"
      "trace (catchBlock E msg s') = EvRespond (Err500 (if msg = [] then ''Failed to generate podcast.'' else msg))
          # map EvUnlinkRequested (rev (cleanupPaths s')) @ trace s'"
      by (simp_all add: catchBlock_def respond_fields)
    from q have q': "pendingUnlinks s' = []" "timers s' = []"
      by (simp_all add: quiet_def initState_def)
    show ?thesis
      unfolding run
      by (simp add: fields q' m [symmetric] t)
  qed
  from before after show "map snd (pendingUnlinks (run E req)) = cleanupPaths (run E req)
     \<and> timers (run E req) = []
     \<and> (\<exists>t. trace (run E req)
               = EvRespond (Err500 m) # map EvUnlinkRequested (rev (cleanupPaths (run E req))) @ t
            \<and> list_all ?P t)
     \<and> pendingUnlinks (settle E (run E req)) = []
     \<and> (\<forall>(t, p) \<in> set (pendingUnlinks (run E req)).
           fs_unlink E t p = None \<longrightarrow> p \<notin> files (settle E (run E req)))"
    by blast
qed

theorem failed_run_requests_cleanup_then_responds_witness:
  "response (run envNegative req0) = Some (Err500 ''ffmpeg exited with code 1'')
   \<and> cleanupPaths (run envNegative req0) =
        [(WORK_DIR, ''man_u0.mp4''), (WORK_DIR, ''woman_u1.mp4''),
         (WORK_DIR, ''u2_line_1.mp3''), (WORK_DIR, ''u3_clip_1.mp4'')]
   \<and> map snd (pendingUnlinks (run envNegative req0)) = cleanupPaths (run envNegative req0)
   \<and> timers (run envNegative req0) = []
   \<and> pendingUnlinks (settle envNegative (run envNegative req0)) = []"
proof -
  have r: "response (run envNegative req0) = Some (Err500 ''ffmpeg exited with code 1'')"
    by (simp add: run_negative)
  have c: "cleanupPaths (run envNegative req0) =
        [(WORK_DIR, ''man_u0.mp4''), (WORK_DIR, ''woman_u1.mp4''),
         (WORK_DIR, ''u2_line_1.mp3''), (WORK_DIR, ''u3_clip_1.mp4'')]"
    by (simp add: run_negative)
  note t = failed_run_requests_cleanup_then_responds [THEN mp, OF r]
  from t have "map snd (pendingUnlinks (run envNegative req0)) = cleanupPaths (run envNegative req0)"
    by (rule conjunct1)
  moreover from t have "timers (run envNegative req0) = []"
    by (elim conjE)
  moreover from t have "pendingUnlinks (settle envNegative (run envNegative req0)) = []"
    by (elim conjE)
  ultimately show ?thesis using r c by blast
qed

section \<open>Clips and dialogue\<close>









lemma concatenateClips_Inr:
  assumes "concatenateClips E clips out s = (Inr p, s')"
  defines "m \<equiv> (WORK_DIR, ''concat_'' @ uuid E (uuids s) @ ''.txt'')"
  shows "p = out" "trace s' = EvUnlink m # EvConcat m clips out # EvWriteManifest m # trace s"
    "files s' = insert out (insert m (files s))
                  - (if fs_unlink E (length (trace s) + 2) m = None then {m} else {})"
    "cleanupPaths s' = cleanupPaths s" "uuids s' = Suc (uuids s)"
  using assms(1) unfolding m_def
  by (auto simp: concatenateClips_def andThen_uuidv4 Let_def ret_def throw_def emit_def now_def
      split: option.splits)

lemma finishRun_Inr_state:
  assumes "finishRun E req clips s = (Inr u, s')"
  obtains s1 where
    "concatenateClips E clips (OUTPUT_DIR, ''podcast_'' @ uuid E (uuids s) @ ''.mp4'')
       (s\<lparr>uuids := Suc (uuids s)\<rparr>) = (Inr (OUTPUT_DIR, ''podcast_'' @ uuid E (uuids s) @ ''.mp4''), s1)"
    "s' = setTimeout 30000 (fold register (tempUploads req)
            (respond (Ok200 (''/downloads/'' @ ''podcast_'' @ uuid E (uuids s) @ ''.mp4'')) s1))"
proof -
  from finishRun_Inr [OF assms] have ne: "clips \<noteq> []" by simp
  let ?out = "(OUTPUT_DIR, ''podcast_'' @ uuid E (uuids s) @ ''.mp4'')"
  from assms ne obtain p s1 where
    c: "concatenateClips E clips ?out (s\<lparr>uuids := Suc (uuids s)\<rparr>) = (Inr p, s1)"
    and s': "s' = setTimeout 30000 (fold register (tempUploads req)
                (respond (Ok200 (''/downloads/'' @ ''podcast_'' @ uuid E (uuids s) @ ''.mp4'')) s1))"
    unfolding finishRun_def Let_def
    by (auto simp: andThen_uuidv4 ret_def elim!: andThen_InrE)
  from concatenateClips_Inr(1) [OF c] c s' show ?thesis by (intro that [of s1]) simp_all
qed


lemma getScript_example:
  "getScript env0 req0 (initState req0) =
    (Inr exampleScript,
     \<lparr>files = {(UPLOAD_DIR, ''upload1'')}, cleanupPaths = [],
      trace = [EvGemini ''key'' [Intro (Num 5), PlainTopic ''tea'',
                 InlineData ''application/octet-stream'' ''AAAA''],
               EvReadFile (UPLOAD_DIR, ''upload1'')],
      uuids = 0, pendingUnlinks = [], timers = [], response = None\<rparr>)"
  by (simp add: getScript_def prepareTopicParts_def youtubePart_def filePart_def callGemini_def
      topicTextPart_def env0_def req0_def initState_def eval_defs
      normalizeLength_effective effectiveLength_def parse_abc)

lemma renderLines_example:
  "renderLines env0 (loopCtx req0 (WORK_DIR, ''man_u0.mp4'') (WORK_DIR, ''woman_u1.mp4'')) 0
     exampleScript []
     \<lparr>files = F, cleanupPaths = CP, trace = T, uuids = 2, pendingUnlinks = [], timers = [],
      response = None\<rparr> =
   (Inr [(WORK_DIR, ''u3_clip_1.mp4''), (WORK_DIR, ''u5_clip_2.mp4'')],
    \<lparr>files = insert (WORK_DIR, ''u5_clip_2.mp4'') (insert (WORK_DIR, ''u4_line_2.mp3'')
              (insert (WORK_DIR, ''u3_clip_1.mp4'') (insert (WORK_DIR, ''u2_line_1.mp3'') F))),
     cleanupPaths = CP @ [(WORK_DIR, ''u2_line_1.mp3''), (WORK_DIR, ''u3_clip_1.mp4''),
                          (WORK_DIR, ''u4_line_2.mp3''), (WORK_DIR, ''u5_clip_2.mp4'')],
     trace = EvLoop (WORK_DIR, ''woman_u1.mp4'') (WORK_DIR, ''u4_line_2.mp3'') (JNumber (Num 2))
               (WORK_DIR, ''u5_clip_2.mp4'')
           # EvProbe (WORK_DIR, ''u4_line_2.mp3'')
           # EvWriteAudio (WORK_DIR, ''u4_line_2.mp3'')
           # EvSynthesize (JString ''Hello'') ''en-US'' ''en-US-chirp-woman'' (WORK_DIR, ''u4_line_2.mp3'')
           # EvRegister (WORK_DIR, ''u5_clip_2.mp4'')
           # EvRegister (WORK_DIR, ''u4_line_2.mp3'')
           # EvLoop (WORK_DIR, ''man_u0.mp4'') (WORK_DIR, ''u2_line_1.mp3'') (JNumber (Num 2))
               (WORK_DIR, ''u3_clip_1.mp4'')
           # EvProbe (WORK_DIR, ''u2_line_1.mp3'')
           # EvWriteAudio (WORK_DIR, ''u2_line_1.mp3'')
           # EvSynthesize (JString ''Hi'') ''en-US'' ''en-US-chirp-man'' (WORK_DIR, ''u2_line_1.mp3'')
           # EvRegister (WORK_DIR, ''u3_clip_1.mp4'')
           # EvRegister (WORK_DIR, ''u2_line_1.mp3'') # T,
     uuids = 6, pendingUnlinks = [], timers = [], response = None\<rparr>)"
  by (simp add: exampleScript_def wellFormed_def renderLine_def renderBody_def loopCtx_def
      audioPathOf_values clipPathOf_values speaker_values
      synthesizeSpeech_def getMediaDuration_def loopVideoWithAudio_def
      env0_def req0_def eval_defs)

lemma finishRun_example:
  "finishRun env0 req0 [(WORK_DIR, ''u3_clip_1.mp4''), (WORK_DIR, ''u5_clip_2.mp4'')]
     \<lparr>files = F, cleanupPaths = CP, trace = T, uuids = 6, pendingUnlinks = [], timers = [],
      response = None\<rparr> =
   (Inr (),
    \<lparr>files = insert (OUTPUT_DIR, ''podcast_u6.mp4'') (insert (WORK_DIR, ''concat_u7.txt'') F)
              - {(WORK_DIR, ''concat_u7.txt'')},
     cleanupPaths = CP @ [(UPLOAD_DIR, ''upload1'')],
     trace = EvSetTimeout 30000 (CP @ [(UPLOAD_DIR, ''upload1'')])
           # EvRegister (UPLOAD_DIR, ''upload1'')
           # EvRespond (Ok200 ''/downloads/podcast_u6.mp4'')
           # EvUnlink (WORK_DIR, ''concat_u7.txt'')
           # EvConcat (WORK_DIR, ''concat_u7.txt'')
               [(WORK_DIR, ''u3_clip_1.mp4''), (WORK_DIR, ''u5_clip_2.mp4'')]
               (OUTPUT_DIR, ''podcast_u6.mp4'')
           # EvWriteManifest (WORK_DIR, ''concat_u7.txt'') # T,
     uuids = 8, pendingUnlinks = [], timers = [(30000, CP @ [(UPLOAD_DIR, ''upload1'')])],
     response = Some (Ok200 ''/downloads/podcast_u6.mp4'')\<rparr>)"
  by (simp add: finishRun_def concatenateClips_def setTimeout_def tempUploads_def
      List.map_filter_simps env0_def req0_def eval_defs)

lemma run_example:
  "run env0 req0 =
    \<lparr>files = {(OUTPUT_DIR, ''podcast_u6.mp4''), (WORK_DIR, ''u5_clip_2.mp4''),
              (WORK_DIR, ''u4_line_2.mp3''), (WORK_DIR, ''u3_clip_1.mp4''),
              (WORK_DIR, ''u2_line_1.mp3''), (WORK_DIR, ''woman_u1.mp4''),
              (WORK_DIR, ''man_u0.mp4''), (UPLOAD_DIR, ''upload1'')},
     cleanupPaths = [(WORK_DIR, ''man_u0.mp4''), (WORK_DIR, ''woman_u1.mp4''),
                     (WORK_DIR, ''u2_line_1.mp3''), (WORK_DIR, ''u3_clip_1.mp4''),
                     (WORK_DIR, ''u4_line_2.mp3''), (WORK_DIR, ''u5_clip_2.mp4''),
                     (UPLOAD_DIR, ''upload1'')],
     trace = [EvSetTimeout 30000
                [(WORK_DIR, ''man_u0.mp4''), (WORK_DIR, ''woman_u1.mp4''),
                 (WORK_DIR, ''u2_line_1.mp3''), (WORK_DIR, ''u3_clip_1.mp4''),
                 (WORK_DIR, ''u4_line_2.mp3''), (WORK_DIR, ''u5_clip_2.mp4''),
                 (UPLOAD_DIR, ''upload1'')],
              EvRegister (UPLOAD_DIR, ''upload1''),
              EvRespond (Ok200 ''/downloads/podcast_u6.mp4''),
              EvUnlink (WORK_DIR, ''concat_u7.txt''),
              EvConcat (WORK_DIR, ''concat_u7.txt'')
                [(WORK_DIR, ''u3_clip_1.mp4''), (WORK_DIR, ''u5_clip_2.mp4'')]
                (OUTPUT_DIR, ''podcast_u6.mp4''),
              EvWriteManifest (WORK_DIR, ''concat_u7.txt''),
              EvLoop (WORK_DIR, ''woman_u1.mp4'') (WORK_DIR, ''u4_line_2.mp3'') (JNumber (Num 2))
                (WORK_DIR, ''u5_clip_2.mp4''),
              EvProbe (WORK_DIR, ''u4_line_2.mp3''),
              EvWriteAudio (WORK_DIR, ''u4_line_2.mp3''),
              EvSynthesize (JString ''Hello'') ''en-US'' ''en-US-chirp-woman'' (WORK_DIR, ''u4_line_2.mp3''),
              EvRegister (WORK_DIR, ''u5_clip_2.mp4''),
              EvRegister (WORK_DIR, ''u4_line_2.mp3''),
              EvLoop (WORK_DIR, ''man_u0.mp4'') (WORK_DIR, ''u2_line_1.mp3'') (JNumber (Num 2))
                (WORK_DIR, ''u3_clip_1.mp4''),
              EvProbe (WORK_DIR, ''u2_line_1.mp3''),
              EvWriteAudio (WORK_DIR, ''u2_line_1.mp3''),
              EvSynthesize (JString ''Hi'') ''en-US'' ''en-US-chirp-man'' (WORK_DIR, ''u2_line_1.mp3''),
              EvRegister (WORK_DIR, ''u3_clip_1.mp4''),
              EvRegister (WORK_DIR, ''u2_line_1.mp3''),
              EvRegister (WORK_DIR, ''woman_u1.mp4''),
              EvRegister (WORK_DIR, ''man_u0.mp4''),
              EvDownload ''https://YOUR_DEFAULT_MAN_VIDEO_URL/woman-default.mp4'' (WORK_DIR, ''woman_u1.mp4''),
              EvDownload ''https://YOUR_DEFAULT_MAN_VIDEO_URL/man-default.mp4'' (WORK_DIR, ''man_u0.mp4''),
              EvGemini ''key'' [Intro (Num 5), PlainTopic ''tea'',
                InlineData ''application/octet-stream'' ''AAAA''],
              EvReadFile (UPLOAD_DIR, ''upload1'')],
     uuids = 8, pendingUnlinks = [],
     timers = [(30000, [(WORK_DIR, ''man_u0.mp4''), (WORK_DIR, ''woman_u1.mp4''),
                 (WORK_DIR, ''u2_line_1.mp3''), (WORK_DIR, ''u3_clip_1.mp4''),
                 (WORK_DIR, ''u4_line_2.mp3''), (WORK_DIR, ''u5_clip_2.mp4''),
                 (UPLOAD_DIR, ''upload1'')])],
     response = Some (Ok200 ''/downloads/podcast_u6.mp4'')\<rparr>"
proof -
  note rs = resolveSources_default [of env0, simplified]
  note tb = tryBlock_rendered [OF getScript_example rs renderLines_example]
  show ?thesis
    by (simp add: run_succeeded [OF req0_valid tb [unfolded finishRun_example]] insert_Diff_if)
qed






section \<open>Cleanup after a successful run\<close>

lemma getScript_disk:
  "files (snd (getScript E req s)) = files s \<and> cleanupPaths (snd (getScript E req s)) = cleanupPaths s"
proof -
  let ?same = "\<lambda>s s'. files s' = files s \<and> cleanupPaths s' = cleanupPaths s"
  have y: "?same s (snd (youtubePart E b s))" for b s
    by (simp add: youtubePart_def extractYouTubeTranscript_def ret_def emit_def Let_def split: option.splits)
  have f: "?same s (snd (filePart E c s))" for c s
    by (simp add: filePart_def ret_def throw_def emit_def Let_def split: option.splits sum.splits)
  have g: "?same s (snd (callGemini E key parts s))" for key parts s
    by (simp add: callGemini_def ret_def throw_def emit_def Let_def
        split: gemini_reply.splits option.splits jsval.splits)
  have andThen_same: "?same s (snd (andThen m k s))"
    if "\<And>s. ?same s (snd (m s))" "\<And>x s. ?same s (snd (k x s))"
    for m :: "state \<Rightarrow> 'a res" and k :: "'a \<Rightarrow> state \<Rightarrow> 'b res" and s
  proof (cases "m s")
    case (Pair r s1)
    with that(1) [of s] have "?same s s1" by simp
    with Pair that(2) show ?thesis by (cases r) (simp_all add: andThen_def)
  qed
  have p: "?same s (snd (prepareTopicParts E a b c d s))" for a b c d s
    unfolding prepareTopicParts_def Let_def
    by (intro andThen_same y f) (simp add: ret_def)
  show ?thesis
    unfolding getScript_def Let_def by (intro andThen_same p g)
qed

lemma resolveVideoSource_disk:
  assumes "resolveVideoSource E opt up key sp s = (Inr p, s')"
  shows "cleanupPaths s' = cleanupPaths s
       \<and> ((Some p = up \<and> files s' = files s) \<or> (fst p = WORK_DIR \<and> files s' = insert p (files s)))"
proof (cases "opt = ''custom''")
  case True
  with assms show ?thesis
    by (cases up) (simp_all add: resolveVideoSource_def throw_def ret_def)
next
  case False
  with assms show ?thesis
    by (auto simp: resolveVideoSource_def andThen_uuidv4 Let_def downloadFile_def throw_def ret_def
        emit_def split: option.splits)
qed

lemma resolveSources_covered:
  assumes rs: "resolveSources E req s = (Inr vw, s')" and c: "covered req s"
  shows "covered req s'"
proof -
  let ?mu = "uploadPath (manVideoFile req)" and ?wu = "uploadPath (womanVideoFile req)"
  from rs obtain mv s1 wv s2 where
    m: "resolveVideoSource E (orDefault ''default'' (manVideoOption req)) ?mu (manLibraryVideo req) ''man'' s
          = (Inr mv, s1)"
    and w: "resolveVideoSource E (orDefault ''default'' (womanVideoOption req)) ?wu (womanLibraryVideo req) ''woman'' s1
          = (Inr wv, s2)"
    and s': "s' = registerDownloads mv ?mu wv ?wu s2"
    unfolding resolveSources_def by (auto elim!: andThen_InrE simp: ret_def)
  have up: "fst p = UPLOAD_DIR" if "Some p = uploadPath f" for p f
    using that by (cases f) (auto simp: uploadPath_def)
  have files: "files s' = files s2"
    and cp: "set (cleanupPaths s') = set (cleanupPaths s2)
               \<union> (if Some mv \<noteq> ?mu then {mv} else {}) \<union> (if Some wv \<noteq> ?wu then {wv} else {})"
    by (auto simp: s' registerDownloads_def Let_def)
  from resolveVideoSource_disk [OF m] resolveVideoSource_disk [OF w]
  have "files s2 \<subseteq> files s \<union> (if Some mv \<noteq> ?mu then {mv} else {}) \<union> (if Some wv \<noteq> ?wu then {wv} else {})"
    and "cleanupPaths s2 = cleanupPaths s"
    and "Some mv \<noteq> ?mu \<longrightarrow> fst mv = WORK_DIR" "Some wv \<noteq> ?wu \<longrightarrow> fst wv = WORK_DIR"
    using up [of mv "manVideoFile req"] up [of wv "womanVideoFile req"] by auto
  with c files cp show ?thesis
    unfolding covered_def by (auto split: if_splits)
qed

lemma renderBody_disk:
  assumes "renderBody E C line a c s = (r, s')"
  shows "cleanupPaths s' = cleanupPaths s \<and> files s' \<subseteq> insert a (insert c (files s))"
proof (cases "getProp line ''speaker''")
  case (JString speaker)
  with assms show ?thesis
    by (auto simp: renderBody_def synthesizeSpeech_def getMediaDuration_def loopVideoWithAudio_def
        andThen_def ret_def throw_def emit_def Let_def
        split: jsval.splits tts_reply.splits option.splits sum.splits if_splits)
qed (use assms in \<open>auto simp: renderBody_def throw_def\<close>)

lemma renderLine_covered:
  assumes "renderLine E C i line s = (r, s')" "covered req s"
  shows "covered req s'"
proof -
  let ?a = "audioPathOf (uuid E (uuids s)) i"
  let ?c = "clipPathOf (uuid E (Suc (uuids s))) i"
  from assms(1) have "renderBody E C line ?a ?c
      (register ?c (register ?a (s\<lparr>uuids := Suc (Suc (uuids s))\<rparr>))) = (r, s')"
    by (simp add: renderLine_def Let_def andThen_uuidv4)
  from renderBody_disk [OF this] assms(2) show ?thesis
    unfolding covered_def by (auto simp: audioPathOf_def clipPathOf_def)
qed

lemma renderLines_covered:
  assumes "renderLines E C i script acc s = (r, s')" "covered req s"
  shows "covered req s'"
  using assms
proof (induction script arbitrary: i acc s)
  case Nil
  then show ?case by simp
next
  case (Cons line rest)
  show ?case
  proof (cases "wellFormed line")
    case False
    with Cons.prems(1) have "renderLines E C (i + 1) rest acc s = (r, s')" by simp
    from Cons.IH [OF this Cons.prems(2)] show ?thesis .
  next
    case True
    obtain r1 s1 where r1: "renderLine E C i line s = (r1, s1)" by (cases "renderLine E C i line s")
    from renderLine_covered [OF r1 Cons.prems(2)] have c1: "covered req s1" .
    show ?thesis
    proof (cases r1)
      case (Inl m)
      with True r1 Cons.prems(1) c1 show ?thesis by simp
    next
      case (Inr clip)
      with True r1 Cons.prems(1)
      have "renderLines E C (i + 1) rest (acc @ [clip]) s1 = (r, s')" by simp
      from Cons.IH [OF this c1] show ?thesis .
    qed
  qed
qed

lemma successful_run_state:
  assumes ok: "response (run E req) = Some (Ok200 url)"
  obtains s3 s4 name m where
    "covered req s3" "quiet (initState req) s4"
    "files s4 = insert (OUTPUT_DIR, name) (insert m (files s3))
                  - (if fs_unlink E (length (trace s3) + 2) m = None then {m} else {})"
    "isManifest m" "cleanupPaths s4 = cleanupPaths s3"
    "run E req = setTimeout 30000 (fold register (tempUploads req)
                   (respond (Ok200 (''/downloads/'' @ name)) s4))"
    "\<exists>clips. trace s4 = EvUnlink m # EvConcat m clips (OUTPUT_DIR, name) # EvWriteManifest m # trace s3"
proof -
  from ok have tb: "tryBlock E req (initState req) = (Inr (), run E req)"
    unfolding run_def by (rule success_iff)
  from tryBlock_Inr [OF tb] obtain script s1 mv wv s2 clips s3 where
    gs: "getScript E req (initState req) = (Inr script, s1)"
    and rs: "resolveSources E req s1 = (Inr (mv, wv), s2)"
    and rl: "renderLines E (loopCtx req mv wv) 0 script [] s2 = (Inr clips, s3)"
    and fr: "finishRun E req clips s3 = (Inr (), run E req)"
    by blast
  have "covered req (initState req)"
    by (simp add: covered_def initState_def)
  with getScript_disk [of E req "initState req"] gs have "covered req s1"
    by (simp add: covered_def)
  from resolveSources_covered [OF rs this] have "covered req s2" .
  from renderLines_covered [OF rl this] have c3: "covered req s3" .
  have "quiet (initState req) s1"
    using gs quietly_getScript [of E req] by (metis quietly_def snd_conv)
  moreover have "quiet s1 s2"
    using rs quietly_resolveSources [of E req] by (metis quietly_def snd_conv)
  moreover have "quiet s2 s3"
    using rl quietly_renderLines [of E "loopCtx req mv wv" 0 script "[]"] by (metis quietly_def snd_conv)
  ultimately have q3: "quiet (initState req) s3" by (blast intro: quiet_trans)
  let ?name = "''podcast_'' @ uuid E (uuids s3) @ ''.mp4''"
  let ?m = "(WORK_DIR, ''concat_'' @ uuid E (Suc (uuids s3)) @ ''.txt'')"
  from finishRun_Inr_state [OF fr] obtain s4 where
    c: "concatenateClips E clips (OUTPUT_DIR, ?name) (s3\<lparr>uuids := Suc (uuids s3)\<rparr>) = (Inr (OUTPUT_DIR, ?name), s4)"
    and final: "run E req = setTimeout 30000 (fold register (tempUploads req)
                   (respond (Ok200 (''/downloads/'' @ ?name)) s4))"
    by blast
  have "quiet (s3\<lparr>uuids := Suc (uuids s3)\<rparr>) s4"
    using c quietly_concatenateClips [of E clips "(OUTPUT_DIR, ?name)"] by (metis quietly_def snd_conv)
  with q3 have q4: "quiet (initState req) s4" by (simp add: quiet_def)
  from concatenateClips_Inr(3,4) [OF c]
  have f4: "files s4 = insert (OUTPUT_DIR, ?name) (insert ?m (files s3))
                  - (if fs_unlink E (length (trace s3) + 2) ?m = None then {?m} else {})"
    and cp4: "cleanupPaths s4 = cleanupPaths s3"
    by simp_all
  have man: "isManifest ?m" by (auto simp: isManifest_def)
  from concatenateClips_Inr(2) [OF c]
  have t4: "\<exists>clips. trace s4 = EvUnlink ?m # EvConcat ?m clips (OUTPUT_DIR, ?name) # EvWriteManifest ?m # trace s3"
    by simp
  show ?thesis by (rule that [OF c3 q4 f4 man cp4 final t4])
qed

lemma settle_nothing: "pendingUnlinks s = [] \<Longrightarrow> settle E s = s"
  by (simp add: settle_def)

lemma unlinkFailed_later: "unlinkFailed E tr p \<Longrightarrow> unlinkFailed E (later @ tr) p"
  unfolding unlinkFailed_def
  by (auto simp: nth_append)

lemma unlinkFailed_now:
  assumes "e = EvUnlink p \<or> e = EvUnlinkRequested p" "fs_unlink E (length tr) p \<noteq> None"
  shows "unlinkFailed E (e # tr) p"
  unfolding unlinkFailed_def
  using assms by (intro exI [of _ "length tr"]) (auto simp: nth_append)

lemma files_settle_cleanupFiles:
  assumes "p \<in> files (settle E (cleanupFiles E ps s))"
  shows "p \<in> files (settle E s)
       \<and> (p \<in> set ps \<longrightarrow> unlinkFailed E (trace (cleanupFiles E ps s)) p)"
  using assms
proof (induction ps arbitrary: s)
  case Nil
  then show ?case by (simp add: cleanupFiles_Nil)
next
  case (Cons q ps)
  let ?s1 = "emit (EvUnlinkRequested q)
          (s\<lparr>files := (if fs_unlink E (now s) q = None \<and> unlinkedAtOnce E (now s) q
                        then files s - {q} else files s),
             pendingUnlinks := pendingUnlinks s @ [(now s, q)]\<rparr>)"
  from Cons.prems have "p \<in> files (settle E (cleanupFiles E ps ?s1))"
    by (simp only: cleanupFiles_Cons)
  from Cons.IH [OF this]
  have 1: "p \<in> files (settle E ?s1)"
    and 2: "p \<in> set ps \<longrightarrow> unlinkFailed E (trace (cleanupFiles E ps ?s1)) p"
    by simp_all
  from 1 have "p \<in> files (settle E s)"
    by (auto simp: settle_def emit_def split: if_splits)
  moreover have "unlinkFailed E (trace (cleanupFiles E ps ?s1)) p" if "p = q"
  proof -
    from 1 that have "fs_unlink E (length (trace s)) q \<noteq> None"
      by (auto simp: settle_def emit_def now_def split: if_splits)
    then have "unlinkFailed E (EvUnlinkRequested q # trace s) q"
      by (intro unlinkFailed_now) simp_all
    then have "unlinkFailed E (map EvUnlinkRequested (rev ps) @ EvUnlinkRequested q # trace s) q"
      by (rule unlinkFailed_later)
    with that show ?thesis by simp
  qed
  ultimately show ?case using 2 by (auto simp only: cleanupFiles_Cons set_simps)
qed

lemma files_kept:
  assumes "p \<in> files s" "p \<notin> set ps" "p \<notin> snd ` set (pendingUnlinks s)"
  shows "p \<in> files (settle E (cleanupFiles E ps s))"
proof -
  from assms(1,2) files_cleanupFiles(2) [of s ps E] have "p \<in> files (cleanupFiles E ps s)"
    by auto
  moreover have "set (map snd (pendingUnlinks (cleanupFiles E ps s)))
      = set (map snd (pendingUnlinks s) @ ps)"
    by (simp only: cleanupFiles_fields)
  then have "snd ` set (pendingUnlinks (cleanupFiles E ps s)) = snd ` set (pendingUnlinks s) \<union> set ps"
    by (simp only: set_map set_append)
  with assms(2,3) have "p \<notin> snd ` set (pendingUnlinks (cleanupFiles E ps s))"
    by blast
  then have "p \<notin> set (map snd (filter (\<lambda>(t, p). fs_unlink E t p = None)
                (pendingUnlinks (cleanupFiles E ps s))))"
    by force
  ultimately show ?thesis
    by (simp add: settle_def)
qed

text \<open>
  C3, as the code has it. In a run that succeeds the final file is not among the
  registered paths: it is on disk at the response and still there after the retention
  delay. The registered paths, which are the intermediate artifacts and the uploads, are
  held by one timer of 30 seconds, and no unlink of them is requested before it fires;
  when it fires one unlink is requested for each registration, and once these have
  settled every file left on disk, the final file apart, is one whose unlink failed.
\<close>

theorem successful_run_keeps_only_final_file:
  "response (run E req) = Some (Ok200 url) \<longrightarrow>
     pendingUnlinks (run E req) = []
     \<and> timers (run E req) = [(30000, cleanupPaths (run E req))]
     \<and> set (tempUploads req) \<subseteq> set (cleanupPaths (run E req))
     \<and> map snd (pendingUnlinks (fireTimers E (settle E (run E req)))) = cleanupPaths (run E req)
     \<and> (\<exists>name. url = ''/downloads/'' @ name
           \<and> (OUTPUT_DIR, name) \<in> files (run E req)
           \<and> (OUTPUT_DIR, name) \<notin> set (cleanupPaths (run E req))
           \<and> (OUTPUT_DIR, name) \<in> files (afterRetention E (run E req))
           \<and> (\<forall>p \<in> files (afterRetention E (run E req)).
                 p = (OUTPUT_DIR, name) \<or> unlinkFailed E (trace (afterRetention E (run E req))) p))"
proof
  assume ok: "response (run E req) = Some (Ok200 url)"
  from ok obtain s3 s4 name m where
    c3: "covered req s3" and q4: "quiet (initState req) s4"
    and files: "files s4 = insert (OUTPUT_DIR, name) (insert m (files s3))
                  - (if fs_unlink E (length (trace s3) + 2) m = None then {m} else {})"
    and m: "isManifest m"
    and cp: "cleanupPaths s4 = cleanupPaths s3"
    and final: "run E req = setTimeout 30000 (fold register (tempUploads req)
                   (respond (Ok200 (''/downloads/'' @ name)) s4))"
    and "\<exists>clips. trace s4 = EvUnlink m # EvConcat m clips (OUTPUT_DIR, name) # EvWriteManifest m # trace s3"
    by (rule successful_run_state)
  then obtain clips where
    t4: "trace s4 = EvUnlink m # EvConcat m clips (OUTPUT_DIR, name) # EvWriteManifest m # trace s3"
    by blast
  let ?out = "(OUTPUT_DIR, name)"
  let ?cp = "cleanupPaths s3 @ tempUploads req"
  let ?r = "run E req"
  from q4 have q: "pendingUnlinks s4 = []" "timers s4 = []"
    by (simp_all add: quiet_def initState_def)
  have url: "url = ''/downloads/'' @ name"
    using ok by (simp add: final respond_fields)
  have out_m: "?out \<noteq> m"
    using m by (auto simp: isManifest_def)
  have up: "OUTPUT_DIR \<notin> fst ` set (tempUploads req)"
    using tempUploads_dir [of _ req] by force
  have nreg: "?out \<notin> set ?cp"
    using c3 up by (force simp: covered_def)
  have r: "pendingUnlinks ?r = []" "timers ?r = [(30000, ?cp)]" "cleanupPaths ?r = ?cp"
    "files ?r = files s4"
    by (simp_all add: final respond_fields q cp)
  have out: "?out \<in> files ?r"
    using out_m by (auto simp: r files)
  have fire: "fireTimers E (settle E ?r) = cleanupFiles E ?cp (?r\<lparr>timers := []\<rparr>)"
    by (simp add: settle_nothing [OF r(1)] fireTimers_def r(2))
  have after: "afterRetention E ?r = settle E (cleanupFiles E ?cp (?r\<lparr>timers := []\<rparr>))"
    by (simp add: afterRetention_def fire)
  have requested: "map snd (pendingUnlinks (fireTimers E (settle E ?r))) = ?cp"
    by (simp add: fire r(1))
  have kept: "?out \<in> files (afterRetention E ?r)"
    unfolding after
  proof (rule files_kept)
    show "?out \<in> files (?r\<lparr>timers := []\<rparr>)" using out by simp
    show "?out \<notin> set ?cp" by (rule nreg)
    show "?out \<notin> snd ` set (pendingUnlinks (?r\<lparr>timers := []\<rparr>))" by (simp add: r(1))
  qed
  have tr_after: "trace (afterRetention E ?r) = trace (cleanupFiles E ?cp (?r\<lparr>timers := []\<rparr>))"
    by (simp add: after settle_def)
  have tr_r: "trace ?r = (EvSetTimeout 30000 ?cp # map EvRegister (rev (tempUploads req))
                 @ [EvRespond (Ok200 (''/downloads/'' @ name))]) @ trace s4"
    by (simp add: final respond_fields cp)
  have rest: "p = ?out \<or> unlinkFailed E (trace (afterRetention E ?r)) p"
    if p: "p \<in> files (afterRetention E ?r)" for p
  proof -
    from files_settle_cleanupFiles [OF p [unfolded after]]
    have 1: "p \<in> files (settle E (?r\<lparr>timers := []\<rparr>))"
      and 2: "p \<in> set ?cp \<longrightarrow> unlinkFailed E (trace (afterRetention E ?r)) p"
      by (simp_all add: tr_after)
    from 1 have "p \<in> files s4" by (simp add: settle_def r)
    then have "p = ?out \<or> (p = m \<and> fs_unlink E (length (trace s3) + 2) m \<noteq> None) \<or> p \<in> files s3"
      unfolding files by (auto split: if_splits)
    moreover have "files s3 \<subseteq> set ?cp"
      using c3 by (auto simp: covered_def)
    moreover have "unlinkFailed E (trace (afterRetention E ?r)) m"
      if f: "fs_unlink E (length (trace s3) + 2) m \<noteq> None"
    proof -
      from f have "fs_unlink E (length (tl (trace s4))) m \<noteq> None"
        by (simp add: t4)
      then have "unlinkFailed E (EvUnlink m # tl (trace s4)) m"
        by (intro unlinkFailed_now) simp_all
      then have "unlinkFailed E (trace s4) m" by (simp add: t4)
      then have "unlinkFailed E (trace ?r) m"
        unfolding tr_r by (rule unlinkFailed_later)
      then have "unlinkFailed E (map EvUnlinkRequested (rev ?cp) @ trace ?r) m"
        by (rule unlinkFailed_later)
      then show ?thesis by (simp add: tr_after)
    qed
    ultimately show ?thesis using 2 by blast
  qed
  from url out nreg kept rest requested
  show "pendingUnlinks ?r = []
     \<and> timers ?r = [(30000, cleanupPaths ?r)]
     \<and> set (tempUploads req) \<subseteq> set (cleanupPaths ?r)
     \<and> map snd (pendingUnlinks (fireTimers E (settle E ?r))) = cleanupPaths ?r
     \<and> (\<exists>name. url = ''/downloads/'' @ name
           \<and> (OUTPUT_DIR, name) \<in> files ?r
           \<and> (OUTPUT_DIR, name) \<notin> set (cleanupPaths ?r)
           \<and> (OUTPUT_DIR, name) \<in> files (afterRetention E ?r)
           \<and> (\<forall>p \<in> files (afterRetention E ?r).
                 p = (OUTPUT_DIR, name) \<or> unlinkFailed E (trace (afterRetention E ?r)) p))"
    unfolding r(1,2,3) by (intro conjI exI [of _ name]) auto
qed

theorem successful_run_keeps_only_final_file_witness:
  "response (run env0 req0) = Some (Ok200 ''/downloads/podcast_u6.mp4'')
   \<and> timers (run env0 req0) = [(30000, cleanupPaths (run env0 req0))]
   \<and> cleanupPaths (run env0 req0) =
        [(WORK_DIR, ''man_u0.mp4''), (WORK_DIR, ''woman_u1.mp4''),
         (WORK_DIR, ''u2_line_1.mp3''), (WORK_DIR, ''u3_clip_1.mp4''),
         (WORK_DIR, ''u4_line_2.mp3''), (WORK_DIR, ''u5_clip_2.mp4''),
         (UPLOAD_DIR, ''upload1'')]
   \<and> map snd (pendingUnlinks (fireTimers env0 (settle env0 (run env0 req0)))) = cleanupPaths (run env0 req0)
   \<and> files (afterRetention env0 (run env0 req0)) = {(OUTPUT_DIR, ''podcast_u6.mp4'')}"
proof -
  have ok: "response (run env0 req0) = Some (Ok200 ''/downloads/podcast_u6.mp4'')"
    by (simp add: run_example)
  have cp: "cleanupPaths (run env0 req0) =
        [(WORK_DIR, ''man_u0.mp4''), (WORK_DIR, ''woman_u1.mp4''),
         (WORK_DIR, ''u2_line_1.mp3''), (WORK_DIR, ''u3_clip_1.mp4''),
         (WORK_DIR, ''u4_line_2.mp3''), (WORK_DIR, ''u5_clip_2.mp4''),
         (UPLOAD_DIR, ''upload1'')]"
    by (simp add: run_example)
  have fs: "fs_unlink env0 t p = None" for t p
    by (simp add: env0_def)
  note t = successful_run_keeps_only_final_file [THEN mp, OF ok]
  from t have timers: "timers (run env0 req0) = [(30000, cleanupPaths (run env0 req0))]"
    by (elim conjE)
  from t have req: "map snd (pendingUnlinks (fireTimers env0 (settle env0 (run env0 req0))))
      = cleanupPaths (run env0 req0)"
    by (elim conjE)
  from t have "\<exists>name. ''/downloads/podcast_u6.mp4'' = ''/downloads/'' @ name
           \<and> (OUTPUT_DIR, name) \<in> files (run env0 req0)
           \<and> (OUTPUT_DIR, name) \<notin> set (cleanupPaths (run env0 req0))
           \<and> (OUTPUT_DIR, name) \<in> files (afterRetention env0 (run env0 req0))
           \<and> (\<forall>p \<in> files (afterRetention env0 (run env0 req0)).
                 p = (OUTPUT_DIR, name) \<or> unlinkFailed env0 (trace (afterRetention env0 (run env0 req0))) p)"
    by (elim conjE)
  then obtain name where n: "''/downloads/podcast_u6.mp4'' = ''/downloads/'' @ name"
    and kept: "(OUTPUT_DIR, name) \<in> files (afterRetention env0 (run env0 req0))"
    and rest: "\<forall>p \<in> files (afterRetention env0 (run env0 req0)).
                 p = (OUTPUT_DIR, name) \<or> unlinkFailed env0 (trace (afterRetention env0 (run env0 req0))) p"
    by (elim exE conjE)
  from n have name: "name = ''podcast_u6.mp4''" by simp
  have "p = (OUTPUT_DIR, name)" if "p \<in> files (afterRetention env0 (run env0 req0))" for p
    using rest [rule_format, OF that] by (simp add: fs unlinkFailed_def)
  with kept have "files (afterRetention env0 (run env0 req0)) = {(OUTPUT_DIR, name)}"
    by blast
  then have after: "files (afterRetention env0 (run env0 req0)) = {(OUTPUT_DIR, ''podcast_u6.mp4'')}"
    by (simp only: name)
  show ?thesis
    by (intro conjI) (rule ok timers cp req after)+
qed

text \<open>C3 as stated fails: the final file of a successful run is not registered, and
  it is still on disk after the timer has fired and every unlink has settled.\<close>

theorem final_file_is_never_deleted:
  "response (run env0 req0) = Some (Ok200 ''/downloads/podcast_u6.mp4'')
   \<and> (OUTPUT_DIR, ''podcast_u6.mp4'') \<in> files (run env0 req0)
   \<and> (OUTPUT_DIR, ''podcast_u6.mp4'') \<notin> set (cleanupPaths (run env0 req0))
   \<and> (OUTPUT_DIR, ''podcast_u6.mp4'') \<in> files (afterRetention env0 (run env0 req0))"
proof -
  have fs: "fs_unlink env0 = (\<lambda>t p. None)" "unlinkedAtOnce env0 = (\<lambda>t p. True)"
    by (simp_all add: env0_def)
  show ?thesis
    by (simp add: run_example afterRetention_def settle_def fireTimers_def cleanupFiles_def emit_def
        now_def Let_def fs)
qed

section \<open>The order of the steps\<close>

lemma stages:
  assumes init: "T0 (trace s)"
    and gs: "\<And>s r s'. T0 (trace s) \<Longrightarrow> getScript E req s = (r, s') \<Longrightarrow>
               (case r of Inr x \<Rightarrow> T1 (trace s') | Inl m \<Rightarrow> F (trace s'))"
    and rs: "\<And>s r s'. T1 (trace s) \<Longrightarrow> resolveSources E req s = (r, s') \<Longrightarrow>
               (case r of Inr x \<Rightarrow> T2 (trace s') | Inl m \<Rightarrow> F (trace s'))"
    and rl: "\<And>C script s r s'. T2 (trace s) \<Longrightarrow> renderLines E C 0 script [] s = (r, s') \<Longrightarrow>
               (case r of Inr x \<Rightarrow> T3 (trace s') | Inl m \<Rightarrow> F (trace s'))"
    and fr: "\<And>clips s r s'. T3 (trace s) \<Longrightarrow> finishRun E req clips s = (r, s') \<Longrightarrow>
               (case r of Inr x \<Rightarrow> G (trace s') | Inl m \<Rightarrow> F (trace s'))"
    and cb: "\<And>m s. F (trace s) \<Longrightarrow> G (trace (catchBlock E m s))"
    and rj: "\<And>m. G (EvRespond (Err400 m) # trace s)"
  shows "G (trace (generatePodcast E req s))"
proof (cases rule: generatePodcast_cases [of E req s])
  case (rejected m)
  then show ?thesis by (simp add: rj)
next
  case (succeeded s')
  from tryBlock_Inr [OF succeeded(1)] obtain script s1 mv wv s2 clips s3 where
    1: "getScript E req s = (Inr script, s1)"
    and 2: "resolveSources E req s1 = (Inr (mv, wv), s2)"
    and 3: "renderLines E (loopCtx req mv wv) 0 script [] s2 = (Inr clips, s3)"
    and 4: "finishRun E req clips s3 = (Inr (), s')"
    by blast
  from gs [OF init 1] have "T1 (trace s1)" by simp
  from rs [OF this 2] have "T2 (trace s2)" by simp
  from rl [OF this 3] have "T3 (trace s3)" by simp
  from fr [OF this 4] have "G (trace s')" by simp
  with succeeded(2) show ?thesis by simp
next
  case (failed m s')
  have "F (trace s')"
  proof (cases rule: tryBlock_cases [of E req s])
    case (script_fails m1 s1)
    with failed(1) gs [OF init script_fails(1)] show ?thesis by simp
  next
    case (resolve_fails script s1 m1 s2)
    from gs [OF init resolve_fails(1)] have "T1 (trace s1)" by simp
    from rs [OF this resolve_fails(2)] resolve_fails(3) failed(1) show ?thesis by simp
  next
    case (render_fails script s1 mv wv s2 m1 s3)
    from gs [OF init render_fails(1)] have "T1 (trace s1)" by simp
    from rs [OF this render_fails(2)] have "T2 (trace s2)" by simp
    from rl [OF this render_fails(3)] render_fails(4) failed(1) show ?thesis by simp
  next
    case (rendered script s1 mv wv s2 clips s3)
    from gs [OF init rendered(1)] have "T1 (trace s1)" by simp
    from rs [OF this rendered(2)] have "T2 (trace s2)" by simp
    from rl [OF this rendered(3)] have "T3 (trace s3)" by simp
    from fr [OF this, of clips "Inl m" s'] rendered(4) failed(1) show ?thesis by simp
  qed
  with failed(2) show ?thesis by (simp add: cb)
qed

lemma phased_mono: "phased k t \<Longrightarrow> k \<le> k' \<Longrightarrow> phased k' t"
  by (induction t arbitrary: k k') (auto split: if_splits)

lemma phased_append:
  "list_all (\<lambda>e. rank e = 0 \<or> rank e = k) evs \<Longrightarrow> phased k t \<Longrightarrow> phased k (evs @ t)"
  by (induction evs) auto

lemma phased_ext:
  assumes "ext (\<lambda>e. rank e = 0 \<or> rank e = k) s s'" "phased j (trace s)" "j \<le> k"
  shows "phased k (trace s')"
proof -
  from assms(1) obtain evs where "trace s' = evs @ trace s" "list_all (\<lambda>e. rank e = 0 \<or> rank e = k) evs"
    by (auto simp: ext_def)
  with phased_mono [OF assms(2,3)] show ?thesis by (simp add: phased_append)
qed

lemma phased_bound: "phased k t \<Longrightarrow> e \<in> set t \<Longrightarrow> rank e \<le> k"
proof (induction t arbitrary: k)
  case Nil
  then show ?case by simp
next
  case (Cons x t)
  show ?case
  proof (cases "rank x = 0")
    case True
    with Cons show ?thesis by auto
  next
    case False
    with Cons.prems have "rank x \<le> k" "phased (rank x) t" by simp_all
    with Cons.IH [of "rank x"] Cons.prems(2) show ?thesis by (auto intro: order_trans)
  qed
qed

lemma phased_sorted: "phased k t \<Longrightarrow> sorted (stepsOf rank t)"
proof (induction t arbitrary: k)
  case Nil
  then show ?case by (simp add: stepsOf_def)
next
  case (Cons x t)
  show ?case
  proof (cases "rank x = 0")
    case True
    with Cons show ?thesis by (simp add: stepsOf_def)
  next
    case False
    with Cons.prems have p: "phased (rank x) t" by simp
    from Cons.IH [OF p] have "sorted (stepsOf rank t)" .
    moreover have "\<forall>n \<in> set (stepsOf rank t). n \<le> rank x"
      using phased_bound [OF p] by (auto simp: stepsOf_def)
    ultimately show ?thesis
      using False by (simp add: stepsOf_def sorted_append)
  qed
qed


lemma adds_ext: "adds P m \<Longrightarrow> m s = (r, s') \<Longrightarrow> ext P s s'"
  by (metis adds_def snd_conv)

lemma getScript_phased:
  assumes "phased 1 (trace s)" "getScript E req s = (r, s')"
  shows "phased 2 (trace s')"
proof -
  let ?prep = "prepareTopicParts E (topicText req) (youtubeUrl req) (uploadPath (topicFile req))
                 (normalizeLength (podcastLength req))"
  have prep: "adds (\<lambda>e. rank e = 0 \<or> rank e = 1) ?prep"
    by (intro adds_prepareTopicParts) simp_all
  obtain r1 s1 where r1: "?prep s = (r1, s1)" by (cases "?prep s")
  from phased_ext [OF adds_ext [OF prep r1] assms(1)] have p1: "phased 1 (trace s1)" by simp
  show ?thesis
  proof (cases r1)
    case (Inl m)
    with r1 assms(2) have "s' = s1" by (simp add: getScript_def andThen_def)
    with p1 show ?thesis by (simp add: phased_mono)
  next
    case (Inr parts)
    have "adds (\<lambda>e. rank e = 0 \<or> rank e = 2) (callGemini E (orDefault [] (apiKey req)) parts)"
      by (rule adds_callGemini) simp
    moreover from r1 Inr assms(2)
    have "callGemini E (orDefault [] (apiKey req)) parts s1 = (r, s')"
      by (simp add: getScript_def andThen_def)
    ultimately have "ext (\<lambda>e. rank e = 0 \<or> rank e = 2) s1 s'" by (rule adds_ext)
    from phased_ext [OF this p1] show ?thesis by simp
  qed
qed

lemma resolveSources_phased:
  assumes "phased 2 (trace s)" "resolveSources E req s = (r, s')"
  shows "phased 3 (trace s')"
proof -
  have "adds (\<lambda>e. rank e = 0 \<or> rank e = 3) (resolveSources E req)"
    by (rule adds_resolveSources) simp_all
  from phased_ext [OF adds_ext [OF this assms(2)] assms(1)] show ?thesis by simp
qed

lemma renderLines_phased:
  assumes "phased 3 (trace s)" "renderLines E C i script acc s = (r, s')"
  shows "phased 4 (trace s')"
proof -
  have "adds (\<lambda>e. rank e = 0 \<or> rank e = 4) (renderLines E C i script acc)"
    by (rule adds_renderLines) simp_all
  from phased_ext [OF adds_ext [OF this assms(2)] assms(1)] show ?thesis by simp
qed

lemma finishRun_phased:
  assumes "phased 4 (trace s)" "finishRun E req clips s = (r, s')"
  shows "phased 5 (trace s')"
proof -
  have "adds (\<lambda>e. rank e = 0 \<or> rank e = 5) (finishRun E req clips)"
    by (rule adds_finishRun) simp_all
  from phased_ext [OF adds_ext [OF this assms(2)] assms(1)] show ?thesis by simp
qed

lemma catchBlock_phased:
  assumes "phased 5 (trace (s :: state))"
  shows "phased 5 (trace (catchBlock E m s))"
proof -
  have "ext (\<lambda>e. rank e = 0 \<or> rank e = 5) s (catchBlock E m s)"
    by (rule ext_catchBlock) simp_all
  from phased_ext [OF this assms] show ?thesis by simp
qed

lemma run_phased: "phased 5 (trace (run E req))"
  unfolding run_def
proof (rule stages [where ?T0.0 = "phased 1" and ?T1.0 = "phased 2" and ?T2.0 = "phased 3"
      and ?T3.0 = "phased 4" and F = "phased 5"])
  show "phased 1 (trace (initState req))" by (simp add: initState_def)
next
  fix s r s'
  assume "phased 1 (trace s)" "getScript E req s = (r, s')"
  then have "phased 2 (trace s')" by (rule getScript_phased)
  then show "case r of Inl m \<Rightarrow> phased 5 (trace s') | Inr x \<Rightarrow> phased 2 (trace s')"
    by (auto split: sum.splits intro: phased_mono)
next
  fix s r s'
  assume "phased 2 (trace s)" "resolveSources E req s = (r, s')"
  then have "phased 3 (trace s')" by (rule resolveSources_phased)
  then show "case r of Inl m \<Rightarrow> phased 5 (trace s') | Inr x \<Rightarrow> phased 3 (trace s')"
    by (auto split: sum.splits intro: phased_mono)
next
  fix C script s r s'
  assume "phased 3 (trace s)" "renderLines E C 0 script [] s = (r, s')"
  then have "phased 4 (trace s')" by (rule renderLines_phased)
  then show "case r of Inl m \<Rightarrow> phased 5 (trace s') | Inr x \<Rightarrow> phased 4 (trace s')"
    by (auto split: sum.splits intro: phased_mono)
next
  fix clips s r s'
  assume "phased 4 (trace s)" "finishRun E req clips s = (r, s')"
  then have "phased 5 (trace s')" by (rule finishRun_phased)
  then show "case r of Inl m \<Rightarrow> phased 5 (trace s') | Inr x \<Rightarrow> phased 5 (trace s')"
    by (simp split: sum.splits)
next
  fix m and s :: state
  assume "phased 5 (trace s)"
  then show "phased 5 (trace (catchBlock E m s))" by (rule catchBlock_phased)
next
  fix m
  show "phased 5 (EvRespond (Err400 m) # trace (initState req))" by (simp add: initState_def)
qed

text \<open>
  C4, as the code has it. The steps of every run happen in the order topic composition,
  script generation, source resolution, rendering, concatenation: read in the order in
  which they happened, the steps of the trace never go back to an earlier step. So the
  script is generated before any source is resolved, and both before any line is
  rendered.
\<close>

theorem steps_in_source_order:
  "sorted (stepsOf rank (trace (run E req)))"
  using run_phased by (rule phased_sorted)

theorem steps_in_source_order_witness:
  "stepsOf rank (trace (run env0 req0)) = [1, 2, 3, 3, 4, 4, 4, 4, 4, 4, 4, 4, 5, 5, 5]
   \<and> sorted (stepsOf rank (trace (run env0 req0)))"
  using steps_in_source_order [of env0 req0] by (simp add: run_example stepsOf_def)

text \<open>
  C4 as stated fails on the example request: the script is generated (step 3 of the
  stated order) before the two background videos are downloaded (step 1 of the stated
  order).
\<close>

theorem script_generated_before_sources_resolved:
  "stepsOf claimedRank (trace (run env0 req0)) = [2, 3, 1, 1, 4, 4, 4, 4, 4, 4, 4, 4, 5, 5, 5]
   \<and> \<not> sorted (stepsOf claimedRank (trace (run env0 req0)))"
  by (simp add: run_example stepsOf_def)

section \<open>Registration of the artifacts\<close>

lemma okTrace_ext:
  assumes "ext P s s'" "okTrace R (trace s)"
    and "\<And>e later. P e \<Longrightarrow> list_all P later \<Longrightarrow> R e (later @ trace s)"
  shows "okTrace R (trace s')"
proof -
  from assms(1) obtain evs where t: "trace s' = evs @ trace s" and all: "list_all P evs"
    by (auto simp: ext_def)
  from all have "okTrace R (evs @ trace s)"
  proof (induction evs)
    case Nil
    show ?case using assms(2) by simp
  next
    case (Cons e evs)
    then show ?case using assms(3) [of e evs] by simp
  qed
  with t show ?thesis by simp
qed

lemma okTrace_adds:
  assumes "adds (\<lambda>e. \<forall>t. R e t) m" "m s = (r, s')" "okTrace R (trace s)"
  shows "okTrace R (trace s')"
  by (rule okTrace_ext [OF adds_ext [OF assms(1,2)] assms(3)]) simp

lemma renderLines_invariant:
  assumes step: "\<And>i line s r s'. renderLine E C i line s = (r, s') \<Longrightarrow> I s \<Longrightarrow> I s'"
    and "renderLines E C i script acc s = (r, s')" "I s"
  shows "I s'"
  using assms(2,3)
proof (induction script arbitrary: i acc s)
  case Nil
  then show ?case by simp
next
  case (Cons line rest)
  show ?case
  proof (cases "wellFormed line")
    case False
    with Cons.prems(1) have "renderLines E C (i + 1) rest acc s = (r, s')" by simp
    from Cons.IH [OF this Cons.prems(2)] show ?thesis .
  next
    case True
    obtain r1 s1 where r1: "renderLine E C i line s = (r1, s1)" by (cases "renderLine E C i line s")
    from step [OF r1 Cons.prems(2)] have c1: "I s1" .
    show ?thesis
    proof (cases r1)
      case (Inl m)
      with True r1 Cons.prems(1) c1 show ?thesis by simp
    next
      case (Inr clip)
      with True r1 Cons.prems(1)
      have "renderLines E C (i + 1) rest (acc @ [clip]) s1 = (r, s')" by simp
      from Cons.IH [OF this c1] show ?thesis .
    qed
  qed
qed

lemma renderLine_registered:
  assumes "renderLine E C i line s = (r, s')" "okTrace artifactRegistered (trace s)"
  shows "okTrace artifactRegistered (trace s')"
proof -
  let ?a = "audioPathOf (uuid E (uuids s)) i"
  let ?c = "clipPathOf (uuid E (Suc (uuids s))) i"
  let ?s0 = "register ?c (register ?a (s\<lparr>uuids := Suc (Suc (uuids s))\<rparr>))"
  let ?P = "\<lambda>e. case e of EvSynthesize t l v a \<Rightarrow> a = ?a | EvWriteAudio a \<Rightarrow> a = ?a
                   | EvLoop v a d c \<Rightarrow> c = ?c | _ \<Rightarrow> True"
  from assms(1) have rb: "renderBody E C line ?a ?c ?s0 = (r, s')"
    by (simp add: renderLine_def Let_def andThen_uuidv4)
  have "adds ?P (renderBody E C line ?a ?c)" by (rule adds_renderBody) simp_all
  then have e: "ext ?P ?s0 s'" using rb by (rule adds_ext)
  have ok0: "okTrace artifactRegistered (trace ?s0)"
    using assms(2) by (simp add: artifactRegistered_def)
  show ?thesis
  proof (rule okTrace_ext [OF e ok0])
    fix e later
    assume "?P e" "list_all ?P later"
    then show "artifactRegistered e (later @ trace ?s0)"
      by (cases e) (simp_all add: artifactRegistered_def)
  qed
qed

lemma run_artifacts_registered: "okTrace artifactRegistered (trace (run E req))"
  unfolding run_def
proof (rule stages [where ?T0.0 = "okTrace artifactRegistered" and ?T1.0 = "okTrace artifactRegistered"
      and ?T2.0 = "okTrace artifactRegistered" and ?T3.0 = "okTrace artifactRegistered"
      and F = "okTrace artifactRegistered"])
  show "okTrace artifactRegistered (trace (initState req))" by (simp add: initState_def)
next
  fix s r s'
  assume a: "okTrace artifactRegistered (trace s)" "getScript E req s = (r, s')"
  have "adds (\<lambda>e. \<forall>t. artifactRegistered e t) (getScript E req)"
    by (rule adds_getScript) (simp_all add: artifactRegistered_def)
  from okTrace_adds [OF this a(2,1)]
  show "case r of Inl m \<Rightarrow> okTrace artifactRegistered (trace s')
        | Inr x \<Rightarrow> okTrace artifactRegistered (trace s')"
    by (simp split: sum.splits)
next
  fix s r s'
  assume a: "okTrace artifactRegistered (trace s)" "resolveSources E req s = (r, s')"
  have "adds (\<lambda>e. \<forall>t. artifactRegistered e t) (resolveSources E req)"
    by (rule adds_resolveSources) (simp_all add: artifactRegistered_def)
  from okTrace_adds [OF this a(2,1)]
  show "case r of Inl m \<Rightarrow> okTrace artifactRegistered (trace s')
        | Inr x \<Rightarrow> okTrace artifactRegistered (trace s')"
    by (simp split: sum.splits)
next
  fix C script s r s'
  assume a: "okTrace artifactRegistered (trace s)" "renderLines E C 0 script [] s = (r, s')"
  have "okTrace artifactRegistered (trace s')"
    by (rule renderLines_invariant [where I = "\<lambda>s. okTrace artifactRegistered (trace s)", OF _ a(2,1)])
      (rule renderLine_registered)
  then show "case r of Inl m \<Rightarrow> okTrace artifactRegistered (trace s')
        | Inr x \<Rightarrow> okTrace artifactRegistered (trace s')"
    by (simp split: sum.splits)
next
  fix clips s r s'
  assume a: "okTrace artifactRegistered (trace s)" "finishRun E req clips s = (r, s')"
  have "adds (\<lambda>e. \<forall>t. artifactRegistered e t) (finishRun E req clips)"
    by (rule adds_finishRun) (simp_all add: artifactRegistered_def)
  from okTrace_adds [OF this a(2,1)]
  show "case r of Inl m \<Rightarrow> okTrace artifactRegistered (trace s')
        | Inr x \<Rightarrow> okTrace artifactRegistered (trace s')"
    by (simp split: sum.splits)
next
  fix m and s :: state
  assume a: "okTrace artifactRegistered (trace s)"
  have "ext (\<lambda>e. \<forall>t. artifactRegistered e t) s (catchBlock E m s)"
    by (rule ext_catchBlock) (simp_all add: artifactRegistered_def)
  from okTrace_ext [OF this a] show "okTrace artifactRegistered (trace (catchBlock E m s))" by simp
next
  fix m
  show "okTrace artifactRegistered (EvRespond (Err400 m) # trace (initState req))"
    by (simp add: initState_def artifactRegistered_def)
qed


lemma resolveVideoSource_trace:
  assumes "resolveVideoSource E opt up key sp s = (Inr p, s')"
  shows "(Some p = up \<and> trace s' = trace s)
       \<or> (fst p = WORK_DIR \<and> (\<exists>url. trace s' = EvDownload url p # trace s))"
proof (cases "opt = ''custom''")
  case True
  with assms show ?thesis
    by (cases up) (simp_all add: resolveVideoSource_def throw_def ret_def)
next
  case False
  with assms show ?thesis
    by (auto simp: resolveVideoSource_def andThen_uuidv4 Let_def downloadFile_def throw_def ret_def
        emit_def split: option.splits)
qed

lemma resolveSources_registered:
  assumes rs: "resolveSources E req s = (Inr vw, s')"
    and none: "\<forall>url p. EvDownload url p \<notin> set (trace s)"
  shows "allDownloadsRegistered (trace s')"
proof -
  let ?mu = "uploadPath (manVideoFile req)" and ?wu = "uploadPath (womanVideoFile req)"
  from rs obtain mv s1 wv s2 where
    m: "resolveVideoSource E (orDefault ''default'' (manVideoOption req)) ?mu (manLibraryVideo req) ''man'' s
          = (Inr mv, s1)"
    and w: "resolveVideoSource E (orDefault ''default'' (womanVideoOption req)) ?wu (womanLibraryVideo req) ''woman'' s1
          = (Inr wv, s2)"
    and s': "s' = registerDownloads mv ?mu wv ?wu s2"
    unfolding resolveSources_def by (auto elim!: andThen_InrE simp: ret_def)
  have up: "fst p = UPLOAD_DIR" if "Some p = uploadPath f" for p f
    using that by (cases f) (auto simp: uploadPath_def)
  have t': "set (trace s') = set (trace s2)
               \<union> (if Some mv \<noteq> ?mu then {EvRegister mv} else {})
               \<union> (if Some wv \<noteq> ?wu then {EvRegister wv} else {})"
    by (auto simp: s' registerDownloads_def Let_def)
  from resolveVideoSource_trace [OF m]
  have t1: "(Some mv = ?mu \<and> trace s1 = trace s)
          \<or> (Some mv \<noteq> ?mu \<and> (\<exists>url. trace s1 = EvDownload url mv # trace s))"
    using up [of mv "manVideoFile req"] by auto
  from resolveVideoSource_trace [OF w]
  have t2: "(Some wv = ?wu \<and> trace s2 = trace s1)
          \<or> (Some wv \<noteq> ?wu \<and> (\<exists>url. trace s2 = EvDownload url wv # trace s1))"
    using up [of wv "womanVideoFile req"] by auto
  show ?thesis
    unfolding allDownloadsRegistered_def
  proof (intro allI impI)
    fix url p
    assume "EvDownload url p \<in> set (trace s')"
    with t' have "EvDownload url p \<in> set (trace s2)" by (auto split: if_splits)
    moreover from none have "EvDownload url p \<notin> set (trace s)" by blast
    ultimately have "(p = mv \<and> Some mv \<noteq> ?mu) \<or> (p = wv \<and> Some wv \<noteq> ?wu)"
      using t1 t2 by auto
    with t' show "EvRegister p \<in> set (trace s')" by auto
  qed
qed

lemma allDownloadsRegistered_append:
  assumes "allDownloadsRegistered t" "list_all (\<lambda>e. case e of EvDownload url p \<Rightarrow> False | _ \<Rightarrow> True) later"
  shows "allDownloadsRegistered (later @ t)"
  using assms unfolding allDownloadsRegistered_def list_all_iff by fastforce

lemma no_download_append:
  assumes "\<forall>url p. EvDownload url p \<notin> set t"
    "list_all (\<lambda>e. case e of EvDownload url p \<Rightarrow> False | _ \<Rightarrow> True) later"
  shows "\<forall>url p. EvDownload url p \<notin> set (later @ t)"
  using assms unfolding list_all_iff by fastforce


lemma run_downloads_registered: "okTrace downloadsRegistered (trace (run E req))"
  unfolding run_def
proof (rule stages [where
      ?T0.0 = "\<lambda>t. okTrace downloadsRegistered t \<and> (\<forall>url p. EvDownload url p \<notin> set t)"
      and ?T1.0 = "\<lambda>t. okTrace downloadsRegistered t \<and> (\<forall>url p. EvDownload url p \<notin> set t)"
      and ?T2.0 = "\<lambda>t. okTrace downloadsRegistered t \<and> allDownloadsRegistered t"
      and ?T3.0 = "okTrace downloadsRegistered"
      and F = "okTrace downloadsRegistered"])
  show "okTrace downloadsRegistered (trace (initState req))
        \<and> (\<forall>url p. EvDownload url p \<notin> set (trace (initState req)))"
    by (simp add: initState_def)
next
  fix s r s'
  assume a: "okTrace downloadsRegistered (trace s) \<and> (\<forall>url p. EvDownload url p \<notin> set (trace s))"
    and b: "getScript E req s = (r, s')"
  let ?P = "\<lambda>e. (\<forall>t. downloadsRegistered e t) \<and> (case e of EvDownload url p \<Rightarrow> False | _ \<Rightarrow> True)"
  have "adds ?P (getScript E req)"
    by (rule adds_getScript) (simp_all add: downloadsRegistered_def)
  then have e: "ext ?P s s'" using b by (rule adds_ext)
  from okTrace_ext [OF e conjunct1 [OF a]] have 1: "okTrace downloadsRegistered (trace s')" by simp
  from e obtain later where "trace s' = later @ trace s"
    "list_all (\<lambda>e. case e of EvDownload url p \<Rightarrow> False | _ \<Rightarrow> True) later"
    by (auto simp: ext_def list_all_iff)
  with no_download_append [OF conjunct2 [OF a]]
  have "\<forall>url p. EvDownload url p \<notin> set (trace s')" by simp
  with 1 show "case r of
        Inl m \<Rightarrow> okTrace downloadsRegistered (trace s')
      | Inr x \<Rightarrow> okTrace downloadsRegistered (trace s') \<and> (\<forall>url p. EvDownload url p \<notin> set (trace s'))"
    by (simp split: sum.splits)
next
  fix s r s'
  assume a: "okTrace downloadsRegistered (trace s) \<and> (\<forall>url p. EvDownload url p \<notin> set (trace s))"
    and b: "resolveSources E req s = (r, s')"
  have "adds (\<lambda>e. \<forall>t. downloadsRegistered e t) (resolveSources E req)"
    by (rule adds_resolveSources) (simp_all add: downloadsRegistered_def)
  from okTrace_adds [OF this b conjunct1 [OF a]]
  have 1: "okTrace downloadsRegistered (trace s')" .
  show "case r of
        Inl m \<Rightarrow> okTrace downloadsRegistered (trace s')
      | Inr x \<Rightarrow> okTrace downloadsRegistered (trace s') \<and> allDownloadsRegistered (trace s')"
  proof (cases r)
    case (Inl m)
    with 1 show ?thesis by simp
  next
    case (Inr vw)
    from resolveSources_registered [OF b [unfolded Inr] conjunct2 [OF a]] 1 Inr
    show ?thesis by simp
  qed
next
  fix C script s r s'
  assume a: "okTrace downloadsRegistered (trace s) \<and> allDownloadsRegistered (trace s)"
    and b: "renderLines E C 0 script [] s = (r, s')"
  let ?P = "\<lambda>e. case e of EvDownload url p \<Rightarrow> False | _ \<Rightarrow> True"
  have "adds ?P (renderLines E C 0 script [])" by (rule adds_renderLines) simp_all
  then have e: "ext ?P s s'" using b by (rule adds_ext)
  have "okTrace downloadsRegistered (trace s')"
  proof (rule okTrace_ext [OF e conjunct1 [OF a]])
    fix e later
    assume "?P e" "list_all ?P later"
    from allDownloadsRegistered_append [OF conjunct2 [OF a] this(2)]
    show "downloadsRegistered e (later @ trace s)"
      by (simp add: downloadsRegistered_def split: event.splits)
  qed
  then show "case r of Inl m \<Rightarrow> okTrace downloadsRegistered (trace s')
        | Inr x \<Rightarrow> okTrace downloadsRegistered (trace s')"
    by (simp split: sum.splits)
next
  fix clips s r s'
  assume a: "okTrace downloadsRegistered (trace s)" "finishRun E req clips s = (r, s')"
  have "adds (\<lambda>e. \<forall>t. downloadsRegistered e t) (finishRun E req clips)"
    by (rule adds_finishRun) (simp_all add: downloadsRegistered_def)
  from okTrace_adds [OF this a(2,1)]
  show "case r of Inl m \<Rightarrow> okTrace downloadsRegistered (trace s')
        | Inr x \<Rightarrow> okTrace downloadsRegistered (trace s')"
    by (simp split: sum.splits)
next
  fix m and s :: state
  assume a: "okTrace downloadsRegistered (trace s)"
  have "ext (\<lambda>e. \<forall>t. downloadsRegistered e t) s (catchBlock E m s)"
    by (rule ext_catchBlock) (simp_all add: downloadsRegistered_def)
  from okTrace_ext [OF this a] show "okTrace downloadsRegistered (trace (catchBlock E m s))" by simp
next
  fix m
  show "okTrace downloadsRegistered (EvRespond (Err400 m) # trace (initState req))"
    by (simp add: initState_def downloadsRegistered_def)
qed

lemma media_not_manifest: "isMedia p \<Longrightarrow> \<not> isManifest p"
  by (auto simp: isMedia_def isManifest_def dest!: arg_cong [where f = last])

lemma manifest_never_registered:
  assumes "EvWriteManifest m \<in> set (trace (run E req))"
  shows "EvRegister m \<notin> set (trace (run E req))"
proof
  assume r: "EvRegister m \<in> set (trace (run E req))"
  from trace_run [of E req] assms have "isManifest m"
    by (auto simp: list_all_iff runEvent_def)
  moreover from trace_run [of E req] r have "fst m = UPLOAD_DIR \<or> isMedia m"
    by (auto simp: list_all_iff runEvent_def)
  ultimately show False
    using media_not_manifest [of m] by (auto simp: isManifest_def)
qed

section \<open>Artifacts that are left behind\<close>

lemma getScript_example_env:
  assumes "gemini_post E = gemini_post env0" "JSON_parse E = JSON_parse env0"
    "readFile E = readFile env0" "mime_lookup E = mime_lookup env0"
  shows "getScript E req0 (initState req0) =
    (Inr exampleScript,
     \<lparr>files = {(UPLOAD_DIR, ''upload1'')}, cleanupPaths = [],
      trace = [EvGemini ''key'' [Intro (Num 5), PlainTopic ''tea'',
                 InlineData ''application/octet-stream'' ''AAAA''],
               EvReadFile (UPLOAD_DIR, ''upload1'')],
      uuids = 0, pendingUnlinks = [], timers = [], response = None\<rparr>)"
  by (simp add: getScript_def prepareTopicParts_def youtubePart_def filePart_def callGemini_def
      topicTextPart_def assms env0_def req0_def initState_def eval_defs
      normalizeLength_effective effectiveLength_def parse_abc)

lemma resolveSources_womanMissing:
  "resolveSources envWomanMissing req0
     \<lparr>files = F, cleanupPaths = [], trace = T, uuids = 0, pendingUnlinks = [], timers = [],
      response = None\<rparr> =
    (Inl ''Request failed with status code 404'',
     \<lparr>files = insert (WORK_DIR, ''woman_u1.mp4'') (insert (WORK_DIR, ''man_u0.mp4'') F),
      cleanupPaths = [],
      trace = EvDownload ''https://YOUR_DEFAULT_MAN_VIDEO_URL/woman-default.mp4'' (WORK_DIR, ''woman_u1.mp4'')
            # EvDownload ''https://YOUR_DEFAULT_MAN_VIDEO_URL/man-default.mp4'' (WORK_DIR, ''man_u0.mp4'') # T,
      uuids = 2, pendingUnlinks = [], timers = [], response = None\<rparr>)"
  by (simp add: resolveSources_def resolveVideoSource_def downloadFile_def registerDownloads_def
      envWomanMissing_def env0_def req0_def eval_defs numeral_2_eq_2)

lemma tryBlock_resolve_fails:
  assumes "getScript E req s = (Inr script, s1)" "resolveSources E req s1 = (Inl m, s2)"
  shows "tryBlock E req s = (Inl m, s2)"
  using assms by (simp add: tryBlock_def andThen_def)

lemma run_womanMissing:
  "run envWomanMissing req0 =
    \<lparr>files = {(WORK_DIR, ''woman_u1.mp4''), (WORK_DIR, ''man_u0.mp4''), (UPLOAD_DIR, ''upload1'')},
     cleanupPaths = [],
     trace = [EvRespond (Err500 ''Request failed with status code 404''),
              EvDownload ''https://YOUR_DEFAULT_MAN_VIDEO_URL/woman-default.mp4'' (WORK_DIR, ''woman_u1.mp4''),
              EvDownload ''https://YOUR_DEFAULT_MAN_VIDEO_URL/man-default.mp4'' (WORK_DIR, ''man_u0.mp4''),
              EvGemini ''key'' [Intro (Num 5), PlainTopic ''tea'',
                InlineData ''application/octet-stream'' ''AAAA''],
              EvReadFile (UPLOAD_DIR, ''upload1'')],
     uuids = 2, pendingUnlinks = [], timers = [],
     response = Some (Err500 ''Request failed with status code 404'')\<rparr>"
proof -
  have gs: "getScript envWomanMissing req0 (initState req0) =
    (Inr exampleScript,
     \<lparr>files = {(UPLOAD_DIR, ''upload1'')}, cleanupPaths = [],
      trace = [EvGemini ''key'' [Intro (Num 5), PlainTopic ''tea'',
                 InlineData ''application/octet-stream'' ''AAAA''],
               EvReadFile (UPLOAD_DIR, ''upload1'')],
      uuids = 0, pendingUnlinks = [], timers = [], response = None\<rparr>)"
    by (rule getScript_example_env) (simp_all add: envWomanMissing_def)
  have tb: "tryBlock envWomanMissing req0 (initState req0) =
    (Inl ''Request failed with status code 404'',
     \<lparr>files = insert (WORK_DIR, ''woman_u1.mp4'') (insert (WORK_DIR, ''man_u0.mp4'') {(UPLOAD_DIR, ''upload1'')}),
      cleanupPaths = [],
      trace = EvDownload ''https://YOUR_DEFAULT_MAN_VIDEO_URL/woman-default.mp4'' (WORK_DIR, ''woman_u1.mp4'')
            # EvDownload ''https://YOUR_DEFAULT_MAN_VIDEO_URL/man-default.mp4'' (WORK_DIR, ''man_u0.mp4'')
            # [EvGemini ''key'' [Intro (Num 5), PlainTopic ''tea'',
                 InlineData ''application/octet-stream'' ''AAAA''],
               EvReadFile (UPLOAD_DIR, ''upload1'')],
      uuids = 2, pendingUnlinks = [], timers = [], response = None\<rparr>)"
    by (rule tryBlock_resolve_fails [OF gs resolveSources_womanMissing])
  show ?thesis
    by (simp add: run_failed [OF req0_valid tb] catchBlock_def cleanupFiles_def respond_def emit_def)
qed

lemma renderLines_concatFails:
  "renderLines envConcatFails (loopCtx req0 (WORK_DIR, ''man_u0.mp4'') (WORK_DIR, ''woman_u1.mp4'')) 0
     exampleScript []
     \<lparr>files = F, cleanupPaths = CP, trace = T, uuids = 2, pendingUnlinks = [], timers = [],
      response = None\<rparr> =
   (Inr [(WORK_DIR, ''u3_clip_1.mp4''), (WORK_DIR, ''u5_clip_2.mp4'')],
    \<lparr>files = insert (WORK_DIR, ''u5_clip_2.mp4'') (insert (WORK_DIR, ''u4_line_2.mp3'')
              (insert (WORK_DIR, ''u3_clip_1.mp4'') (insert (WORK_DIR, ''u2_line_1.mp3'') F))),
     cleanupPaths = CP @ [(WORK_DIR, ''u2_line_1.mp3''), (WORK_DIR, ''u3_clip_1.mp4''),
                          (WORK_DIR, ''u4_line_2.mp3''), (WORK_DIR, ''u5_clip_2.mp4'')],
     trace = EvLoop (WORK_DIR, ''woman_u1.mp4'') (WORK_DIR, ''u4_line_2.mp3'') (JNumber (Num 2))
               (WORK_DIR, ''u5_clip_2.mp4'')
           # EvProbe (WORK_DIR, ''u4_line_2.mp3'')
           # EvWriteAudio (WORK_DIR, ''u4_line_2.mp3'')
           # EvSynthesize (JString ''Hello'') ''en-US'' ''en-US-chirp-woman'' (WORK_DIR, ''u4_line_2.mp3'')
           # EvRegister (WORK_DIR, ''u5_clip_2.mp4'')
           # EvRegister (WORK_DIR, ''u4_line_2.mp3'')
           # EvLoop (WORK_DIR, ''man_u0.mp4'') (WORK_DIR, ''u2_line_1.mp3'') (JNumber (Num 2))
               (WORK_DIR, ''u3_clip_1.mp4'')
           # EvProbe (WORK_DIR, ''u2_line_1.mp3'')
           # EvWriteAudio (WORK_DIR, ''u2_line_1.mp3'')
           # EvSynthesize (JString ''Hi'') ''en-US'' ''en-US-chirp-man'' (WORK_DIR, ''u2_line_1.mp3'')
           # EvRegister (WORK_DIR, ''u3_clip_1.mp4'')
           # EvRegister (WORK_DIR, ''u2_line_1.mp3'') # T,
     uuids = 6, pendingUnlinks = [], timers = [], response = None\<rparr>)"
  by (simp add: exampleScript_def wellFormed_def renderLine_def renderBody_def loopCtx_def
      audioPathOf_values clipPathOf_values speaker_values
      synthesizeSpeech_def getMediaDuration_def loopVideoWithAudio_def
      envConcatFails_def env0_def req0_def eval_defs)

lemma finishRun_concatFails:
  "finishRun envConcatFails req0 [(WORK_DIR, ''u3_clip_1.mp4''), (WORK_DIR, ''u5_clip_2.mp4'')]
     \<lparr>files = F, cleanupPaths = CP, trace = T, uuids = 6, pendingUnlinks = [], timers = [],
      response = None\<rparr> =
   (Inl ''ffmpeg exited with code 1'',
    \<lparr>files = insert (WORK_DIR, ''concat_u7.txt'') F,
     cleanupPaths = CP,
     trace = EvConcat (WORK_DIR, ''concat_u7.txt'')
               [(WORK_DIR, ''u3_clip_1.mp4''), (WORK_DIR, ''u5_clip_2.mp4'')]
               (OUTPUT_DIR, ''podcast_u6.mp4'')
           # EvWriteManifest (WORK_DIR, ''concat_u7.txt'') # T,
     uuids = 8, pendingUnlinks = [], timers = [], response = None\<rparr>)"
  by (simp add: finishRun_def concatenateClips_def setTimeout_def tempUploads_def
      List.map_filter_simps envConcatFails_def env0_def req0_def eval_defs)

lemma run_concatFails:
  "run envConcatFails req0 =
    \<lparr>files = {(WORK_DIR, ''concat_u7.txt''), (UPLOAD_DIR, ''upload1'')},
     cleanupPaths = [(WORK_DIR, ''man_u0.mp4''), (WORK_DIR, ''woman_u1.mp4''),
                     (WORK_DIR, ''u2_line_1.mp3''), (WORK_DIR, ''u3_clip_1.mp4''),
                     (WORK_DIR, ''u4_line_2.mp3''), (WORK_DIR, ''u5_clip_2.mp4'')],
     trace = [EvRespond (Err500 ''ffmpeg exited with code 1''),
              EvUnlinkRequested (WORK_DIR, ''u5_clip_2.mp4''),
              EvUnlinkRequested (WORK_DIR, ''u4_line_2.mp3''),
              EvUnlinkRequested (WORK_DIR, ''u3_clip_1.mp4''),
              EvUnlinkRequested (WORK_DIR, ''u2_line_1.mp3''),
              EvUnlinkRequested (WORK_DIR, ''woman_u1.mp4''),
              EvUnlinkRequested (WORK_DIR, ''man_u0.mp4''),
              EvConcat (WORK_DIR, ''concat_u7.txt'')
                [(WORK_DIR, ''u3_clip_1.mp4''), (WORK_DIR, ''u5_clip_2.mp4'')]
                (OUTPUT_DIR, ''podcast_u6.mp4''),
              EvWriteManifest (WORK_DIR, ''concat_u7.txt''),
              EvLoop (WORK_DIR, ''woman_u1.mp4'') (WORK_DIR, ''u4_line_2.mp3'') (JNumber (Num 2))
                (WORK_DIR, ''u5_clip_2.mp4''),
              EvProbe (WORK_DIR, ''u4_line_2.mp3''),
              EvWriteAudio (WORK_DIR, ''u4_line_2.mp3''),
              EvSynthesize (JString ''Hello'') ''en-US'' ''en-US-chirp-woman'' (WORK_DIR, ''u4_line_2.mp3''),
              EvRegister (WORK_DIR, ''u5_clip_2.mp4''),
              EvRegister (WORK_DIR, ''u4_line_2.mp3''),
              EvLoop (WORK_DIR, ''man_u0.mp4'') (WORK_DIR, ''u2_line_1.mp3'') (JNumber (Num 2))
                (WORK_DIR, ''u3_clip_1.mp4''),
              EvProbe (WORK_DIR, ''u2_line_1.mp3''),
              EvWriteAudio (WORK_DIR, ''u2_line_1.mp3''),
              EvSynthesize (JString ''Hi'') ''en-US'' ''en-US-chirp-man'' (WORK_DIR, ''u2_line_1.mp3''),
              EvRegister (WORK_DIR, ''u3_clip_1.mp4''),
              EvRegister (WORK_DIR, ''u2_line_1.mp3''),
              EvRegister (WORK_DIR, ''woman_u1.mp4''),
              EvRegister (WORK_DIR, ''man_u0.mp4''),
              EvDownload ''https://YOUR_DEFAULT_MAN_VIDEO_URL/woman-default.mp4'' (WORK_DIR, ''woman_u1.mp4''),
              EvDownload ''https://YOUR_DEFAULT_MAN_VIDEO_URL/man-default.mp4'' (WORK_DIR, ''man_u0.mp4''),
              EvGemini ''key'' [Intro (Num 5), PlainTopic ''tea'',
                InlineData ''application/octet-stream'' ''AAAA''],
              EvReadFile (UPLOAD_DIR, ''upload1'')],
     uuids = 8,
     pendingUnlinks = [(20, WORK_DIR, ''man_u0.mp4''), (21, WORK_DIR, ''woman_u1.mp4''),
                       (22, WORK_DIR, ''u2_line_1.mp3''), (23, WORK_DIR, ''u3_clip_1.mp4''),
                       (24, WORK_DIR, ''u4_line_2.mp3''), (25, WORK_DIR, ''u5_clip_2.mp4'')],
     timers = [],
     response = Some (Err500 ''ffmpeg exited with code 1'')\<rparr>"
proof -
  have gs: "getScript envConcatFails req0 (initState req0) =
    (Inr exampleScript,
     \<lparr>files = {(UPLOAD_DIR, ''upload1'')}, cleanupPaths = [],
      trace = [EvGemini ''key'' [Intro (Num 5), PlainTopic ''tea'',
                 InlineData ''application/octet-stream'' ''AAAA''],
               EvReadFile (UPLOAD_DIR, ''upload1'')],
      uuids = 0, pendingUnlinks = [], timers = [], response = None\<rparr>)"
    by (rule getScript_example_env) (simp_all add: envConcatFails_def)
  note rs = resolveSources_default [of envConcatFails, simplified envConcatFails_def, simplified,
      folded envConcatFails_def]
  note tb = tryBlock_rendered [OF gs rs renderLines_concatFails]
  have fs: "fs_unlink envConcatFails = (\<lambda>t p. None)" "unlinkedAtOnce envConcatFails = (\<lambda>t p. True)"
    by (simp_all add: envConcatFails_def env0_def)
  show ?thesis
    by (simp add: run_failed [OF req0_valid tb [unfolded finishRun_concatFails]]
        catchBlock_def cleanupFiles_def respond_def emit_def now_def Let_def fs insert_Diff_if)
qed

text \<open>
  C2 does not hold of the code. A downloaded background video is pushed onto the cleanup
  list only after both sources have been resolved (lines 341 to 346), and the concat
  manifest is never pushed: \<open>concatenateClips\<close> unlinks it itself, after the
  concatenation has succeeded (line 250). When the woman's video cannot be downloaded,
  the man's video, already on disk, is not registered: the \<open>catch\<close> block cleans an
  empty list and the file stays for good. When the concatenation fails, the manifest is
  on disk and not registered: it stays for good as well.
\<close>

theorem downloaded_video_and_manifest_are_left_behind:
  "response (run envWomanMissing req0) = Some (Err500 ''Request failed with status code 404'')
   \<and> EvDownload ''https://YOUR_DEFAULT_MAN_VIDEO_URL/man-default.mp4'' (WORK_DIR, ''man_u0.mp4'')
       \<in> set (trace (run envWomanMissing req0))
   \<and> (WORK_DIR, ''man_u0.mp4'') \<in> files (run envWomanMissing req0)
   \<and> cleanupPaths (run envWomanMissing req0) = []
   \<and> pendingUnlinks (run envWomanMissing req0) = []
   \<and> timers (run envWomanMissing req0) = []
   \<and> (WORK_DIR, ''man_u0.mp4'') \<in> files (afterRetention envWomanMissing (run envWomanMissing req0))
   \<and> response (run envConcatFails req0) = Some (Err500 ''ffmpeg exited with code 1'')
   \<and> EvWriteManifest (WORK_DIR, ''concat_u7.txt'') \<in> set (trace (run envConcatFails req0))
   \<and> (WORK_DIR, ''concat_u7.txt'') \<in> files (run envConcatFails req0)
   \<and> (WORK_DIR, ''concat_u7.txt'') \<notin> set (cleanupPaths (run envConcatFails req0))
   \<and> (WORK_DIR, ''concat_u7.txt'') \<notin> snd ` set (pendingUnlinks (run envConcatFails req0))
   \<and> timers (run envConcatFails req0) = []
   \<and> (WORK_DIR, ''concat_u7.txt'') \<in> files (afterRetention envConcatFails (run envConcatFails req0))"
proof -
  have fs: "fs_unlink envConcatFails = (\<lambda>t p. None)" "unlinkedAtOnce envConcatFails = (\<lambda>t p. True)"
    by (simp_all add: envConcatFails_def env0_def)
  have 1: "response (run envWomanMissing req0) = Some (Err500 ''Request failed with status code 404'')
   \<and> EvDownload ''https://YOUR_DEFAULT_MAN_VIDEO_URL/man-default.mp4'' (WORK_DIR, ''man_u0.mp4'')
       \<in> set (trace (run envWomanMissing req0))
   \<and> (WORK_DIR, ''man_u0.mp4'') \<in> files (run envWomanMissing req0)
   \<and> cleanupPaths (run envWomanMissing req0) = []
   \<and> pendingUnlinks (run envWomanMissing req0) = []
   \<and> timers (run envWomanMissing req0) = []
   \<and> (WORK_DIR, ''man_u0.mp4'') \<in> files (afterRetention envWomanMissing (run envWomanMissing req0))"
    by (simp add: run_womanMissing afterRetention_def settle_def fireTimers_def)
  have 2: "response (run envConcatFails req0) = Some (Err500 ''ffmpeg exited with code 1'')
   \<and> EvWriteManifest (WORK_DIR, ''concat_u7.txt'') \<in> set (trace (run envConcatFails req0))
   \<and> (WORK_DIR, ''concat_u7.txt'') \<in> files (run envConcatFails req0)
   \<and> (WORK_DIR, ''concat_u7.txt'') \<notin> set (cleanupPaths (run envConcatFails req0))
   \<and> (WORK_DIR, ''concat_u7.txt'') \<notin> snd ` set (pendingUnlinks (run envConcatFails req0))
   \<and> timers (run envConcatFails req0) = []
   \<and> (WORK_DIR, ''concat_u7.txt'') \<in> files (afterRetention envConcatFails (run envConcatFails req0))"
    by (simp add: run_concatFails afterRetention_def settle_def fireTimers_def fs)
  from 1 2 show ?thesis by (simp only: simp_thms)
qed

end
